theory Spec2Isabelle
  imports Complex_Main
begin

section \<open>Arrays\<close>

text \<open>
  A two-dimensional numpy array is a list of rows. A finite float64 entry is modelled as a
  real number: the arithmetic of the source is carried out exactly, and rounding is outside
  the model. The infinities and NaN that the entropy computation can produce are values of
  the type \<open>npfloat\<close> below. A well-formed array is rectangular (\<open>ndarray\<close>); its \<open>shape\<close>
  is the pair (number of rows, length of a row).
\<close>

type_synonym matrix = "real list list"

datatype py_error = NameError | ValueError | IndexError | KeyError

definition shape :: "'a list list \<Rightarrow> nat \<times> nat" where
  "shape a = (length a, if a = [] then 0 else length (hd a))"

definition ndarray :: "'a list list \<Rightarrow> bool" where
  "ndarray a = list_all (\<lambda>r. length r = snd (shape a)) a"

definition zeros :: "nat \<Rightarrow> nat \<Rightarrow> matrix" where
  "zeros m n = replicate m (replicate n 0)"

definition ones :: "nat \<Rightarrow> nat \<Rightarrow> matrix" where
  "ones m n = replicate m (replicate n 1)"

definition eye :: "nat \<Rightarrow> matrix" where
  "eye n = [[if i = j then 1 else 0. j \<leftarrow> [0..<n]]. i \<leftarrow> [0..<n]]"

definition np_transpose :: "'a list list \<Rightarrow> 'a list list" where
  "np_transpose a = [[r ! j. r \<leftarrow> a]. j \<leftarrow> [0..<snd (shape a)]]"

text \<open>Elementwise operations on two arrays of one shape, and on one array.\<close>

definition ew2 :: "('a \<Rightarrow> 'b \<Rightarrow> 'c) \<Rightarrow> 'a list list \<Rightarrow> 'b list list \<Rightarrow> 'c list list" where
  "ew2 f a b = map2 (map2 f) a b"

definition ew1 :: "('a \<Rightarrow> 'b) \<Rightarrow> 'a list list \<Rightarrow> 'b list list" where
  "ew1 f a = map (map f) a"

text \<open>
  An elementwise operation on two arrays whose shapes are not known to agree follows numpy's
  broadcasting: an axis of length 1 is stretched to the other operand's length, and any other
  disagreement raises ValueError.
\<close>

definition np_binop ::
  "('a \<Rightarrow> 'b \<Rightarrow> 'c) \<Rightarrow> 'a list list \<Rightarrow> 'b list list \<Rightarrow> py_error + 'c list list" where
  "np_binop f a b =
     (let (p, q) = shape a; (r, s) = shape b in
      if (p = r \<or> p = 1 \<or> r = 1) \<and> (q = s \<or> q = 1 \<or> s = 1) then
        Inr [[f (a ! (if p = 1 then 0 else i) ! (if q = 1 then 0 else j))
                (b ! (if r = 1 then 0 else i) ! (if s = 1 then 0 else j)).
              j \<leftarrow> [0..<(if q = 1 then s else q)]].
             i \<leftarrow> [0..<(if p = 1 then r else p)]]
      else Inl ValueError)"

text \<open>Reductions: \<open>a.sum(1)\<close>, \<open>a.sum(0)\<close> and \<open>a.sum()\<close>.\<close>

definition sum1 :: "matrix \<Rightarrow> real list" where
  "sum1 a = map sum_list a"

definition sum0 :: "matrix \<Rightarrow> real list" where
  "sum0 a = map sum_list (np_transpose a)"

definition total :: "matrix \<Rightarrow> real" where
  "total a = sum_list (map sum_list a)"

text \<open>\<open>np.tile(v[:, np.newaxis], (1, n))\<close> and \<open>np.tile(v, (m, 1))\<close>.\<close>

definition tile_cols :: "'a list \<Rightarrow> nat \<Rightarrow> 'a list list" where
  "tile_cols v n = map (replicate n) v"

definition tile_rows :: "'a list \<Rightarrow> nat \<Rightarrow> 'a list list" where
  "tile_rows v m = replicate m v"

definition clip :: "real \<Rightarrow> real \<Rightarrow> real \<Rightarrow> real" where
  "clip lo hi v = min (max v lo) hi"

text \<open>
  \<open>argmax\<close> is the index of the first maximal entry. numpy raises ValueError when the axis
  it reduces has length 0.
\<close>

fun argmax_from :: "nat \<Rightarrow> real \<Rightarrow> nat \<Rightarrow> real list \<Rightarrow> nat" where
  "argmax_from best bv i [] = best"
| "argmax_from best bv i (x # xs) =
     (if bv < x then argmax_from i x (Suc i) xs else argmax_from best bv (Suc i) xs)"

definition argmax :: "real list \<Rightarrow> nat" where
  "argmax xs = (case xs of [] \<Rightarrow> 0 | x # r \<Rightarrow> argmax_from 0 x 1 r)"

definition argmax_axis1 :: "matrix \<Rightarrow> py_error + nat list" where
  "argmax_axis1 a = (if snd (shape a) = 0 then Inl ValueError else Inr (map argmax a))"

definition argmax_axis0 :: "matrix \<Rightarrow> py_error + nat list" where
  "argmax_axis0 a = (if fst (shape a) = 0 then Inl ValueError
                     else Inr (map argmax (np_transpose a)))"

text \<open>\<open>np.eye(n)[idx]\<close>: the rows of the identity selected by an index vector.\<close>

definition one_hot_rows :: "nat \<Rightarrow> nat list \<Rightarrow> matrix" where
  "one_hot_rows n idx = map (\<lambda>k. eye n ! k) idx"

section \<open>apply_distortion\<close>

definition apply_distortion :: "matrix \<Rightarrow> real \<Rightarrow> matrix" where
  "apply_distortion sim_matrix ratio =
     (let (m, n) = shape sim_matrix in
      if (m < 2 \<or> n < 2) \<or> ratio = 0 then sim_matrix
      else
        let pos_x = [[real y / real (n - 1). y \<leftarrow> [0..<n]]. x \<leftarrow> [0..<m]];
            pos_y = [[real x / real (m - 1). x \<leftarrow> [0..<m]]. y \<leftarrow> [0..<n]];
            distortion_mask =
              ew1 (\<lambda>v. 1 - v\<^sup>2 * ratio) (ew2 (-) pos_x (np_transpose pos_y))
        in ew2 (*) sim_matrix distortion_mask)"

section \<open>Non-finite floats\<close>

text \<open>
  The entropy of a row that is not a probability distribution is not a finite number:
  \<open>scipy.special.entr\<close> is \<open>-inf\<close> at a negative argument, and a division by a zero sum
  gives an infinity or NaN. A float64 that may be non-finite is a value of \<open>npfloat\<close>, with
  the IEEE rules for the operations the source applies to such values.
\<close>

datatype npfloat = Finite real | PosInf | NegInf | NaN

text \<open>\<open>x / s\<close> of two finite floats.\<close>

definition fdiv :: "real \<Rightarrow> real \<Rightarrow> npfloat" where
  "fdiv x s =
     (if s \<noteq> 0 then Finite (x / s)
      else if 0 < x then PosInf else if x < 0 then NegInf else NaN)"

text \<open>\<open>v / d\<close> of a float by a finite float.\<close>

fun fquot :: "npfloat \<Rightarrow> real \<Rightarrow> npfloat" where
  "fquot (Finite x) d = fdiv x d"
| "fquot PosInf d = (if 0 \<le> d then PosInf else NegInf)"
| "fquot NegInf d = (if 0 \<le> d then NegInf else PosInf)"
| "fquot NaN d = NaN"

fun fadd :: "npfloat \<Rightarrow> npfloat \<Rightarrow> npfloat" where
  "fadd (Finite x) (Finite y) = Finite (x + y)"
| "fadd NaN v = NaN"
| "fadd v NaN = NaN"
| "fadd PosInf NegInf = NaN"
| "fadd NegInf PosInf = NaN"
| "fadd PosInf v = PosInf"
| "fadd v PosInf = PosInf"
| "fadd NegInf v = NegInf"
| "fadd v NegInf = NegInf"

definition fsum :: "npfloat list \<Rightarrow> npfloat" where
  "fsum vs = foldr fadd vs (Finite 0)"

text \<open>\<open>a * v\<close> of a finite float and a float.\<close>

fun fmul :: "real \<Rightarrow> npfloat \<Rightarrow> npfloat" where
  "fmul a (Finite x) = Finite (a * x)"
| "fmul a PosInf = (if 0 < a then PosInf else if a < 0 then NegInf else NaN)"
| "fmul a NegInf = (if 0 < a then NegInf else if a < 0 then PosInf else NaN)"
| "fmul a NaN = NaN"

text \<open>The comparison \<open>v > w\<close>, false whenever an operand is NaN.\<close>

fun fgt :: "npfloat \<Rightarrow> npfloat \<Rightarrow> bool" where
  "fgt (Finite x) (Finite y) = (x > y)"
| "fgt NaN w = False"
| "fgt v NaN = False"
| "fgt v PosInf = False"
| "fgt PosInf w = True"
| "fgt NegInf w = False"
| "fgt (Finite x) NegInf = True"

text \<open>\<open>np.minimum\<close>, which propagates NaN.\<close>

fun fmin :: "npfloat \<Rightarrow> npfloat \<Rightarrow> npfloat" where
  "fmin NaN w = NaN"
| "fmin v NaN = NaN"
| "fmin v w = (if fgt v w then w else v)"

text \<open>
  The order in which \<open>sorted\<close> arranges floats: \<open>-inf\<close>, the finite values, \<open>inf\<close>. A pool
  never holds NaN (line 78 keeps the entries that are \<open>> 0\<close>); the order puts NaN last.
\<close>

fun frank :: "npfloat \<Rightarrow> nat" where
  "frank NegInf = 0"
| "frank (Finite x) = 1"
| "frank PosInf = 2"
| "frank NaN = 3"

instantiation npfloat :: linorder
begin

definition less_eq_npfloat :: "npfloat \<Rightarrow> npfloat \<Rightarrow> bool" where
  "less_eq_npfloat v w =
     (case (v, w) of (Finite x, Finite y) \<Rightarrow> x \<le> y | _ \<Rightarrow> frank v \<le> frank w)"

definition less_npfloat :: "npfloat \<Rightarrow> npfloat \<Rightarrow> bool" where
  "less_npfloat v w =
     (case (v, w) of (Finite x, Finite y) \<Rightarrow> x < y | _ \<Rightarrow> frank v < frank w)"

instance
  by standard (auto simp: less_eq_npfloat_def less_npfloat_def split: npfloat.splits)

end

section \<open>Entropy scoring and mask construction\<close>

text \<open>
  \<open>normalize(X, axis, norm='l1')\<close> of scikit-learn divides every row (axis 1) or column
  (axis 0) by the sum of its absolute values, a zero sum being replaced by 1.
  \<open>entropy(pk)\<close> of scipy divides \<open>pk\<close> by its sum and returns the sum of \<open>entr\<close> over the
  quotients, \<open>entr(p)\<close> being \<open>-p ln p\<close> for \<open>p > 0\<close>, 0 at 0 and \<open>-inf\<close> for \<open>p < 0\<close>.
\<close>

definition normalize_row :: "real list \<Rightarrow> real list" where
  "normalize_row v = (let s = sum_list (map abs v) in map (\<lambda>x. x / (if s = 0 then 1 else s)) v)"

definition normalize :: "matrix \<Rightarrow> nat \<Rightarrow> matrix" where
  "normalize a axis =
     (if axis = 0 then np_transpose (map normalize_row (np_transpose a))
      else map normalize_row a)"

fun entr :: "npfloat \<Rightarrow> npfloat" where
  "entr (Finite p) = (if 0 < p then Finite (- p * ln p) else if p = 0 then Finite 0 else NegInf)"
| "entr PosInf = NegInf"
| "entr NegInf = NegInf"
| "entr NaN = NaN"

definition entropy :: "real list \<Rightarrow> npfloat" where
  "entropy pk = (let s = sum_list pk in fsum (map (\<lambda>p. entr (fdiv p s)) pk))"

text \<open>
  Lines 68 to 75 of the source and lines 85 to 90 are the same computation; it is written
  once here. \<open>entropy_x\<close> has one entry per row, \<open>entropy_y\<close> one per column, and
  \<open>min_entropy\<close> is \<open>np.minimum(mask_x, mask_y)\<close> of the two tiled vectors.
\<close>

definition entropy_x :: "matrix \<Rightarrow> npfloat list" where
  "entropy_x sim_matrix =
     (let (m, n) = shape sim_matrix; norm_x = normalize sim_matrix 1
      in [fquot (entropy (norm_x ! i)) (ln (real n)). i \<leftarrow> [0..<m]])"

definition entropy_y :: "matrix \<Rightarrow> npfloat list" where
  "entropy_y sim_matrix =
     (let (m, n) = shape sim_matrix; norm_y = normalize sim_matrix 0
      in [fquot (entropy (map (\<lambda>r. r ! j) norm_y)) (ln (real m)). j \<leftarrow> [0..<n]])"

definition min_entropy :: "matrix \<Rightarrow> npfloat list list" where
  "min_entropy sim_matrix =
     (let (m, n) = shape sim_matrix
      in ew2 fmin (tile_cols (entropy_x sim_matrix) n) (tile_rows (entropy_y sim_matrix) m))"

definition gather_null_aligns :: "matrix \<Rightarrow> matrix \<Rightarrow> py_error + npfloat list" where
  "gather_null_aligns sim_matrix inter_matrix =
     (let (m, n) = shape sim_matrix in
      if min m n \<le> 2 then Inr []
      else
        case np_binop fmul inter_matrix (min_entropy sim_matrix) of
          Inl e \<Rightarrow> Inl e
        | Inr all_ents \<Rightarrow> Inr (filter (\<lambda>x. fgt x (Finite 0)) (concat all_ents)))"

definition apply_percentile_null_aligns :: "matrix \<Rightarrow> npfloat \<Rightarrow> matrix" where
  "apply_percentile_null_aligns sim_matrix ratio =
     (let (m, n) = shape sim_matrix in
      if min m n \<le> 2 then ones m n
      else ew1 (\<lambda>v. if fgt v ratio then 0 else 1) (min_entropy sim_matrix))"

section \<open>iter_max\<close>

text \<open>
  The body of \<open>iter_max\<close> never mentions its parameter \<open>sim_matrix\<close>: every occurrence
  is the name \<open>sim\<close>, which Python resolves in the module's globals when the function runs.
  The globals are therefore an argument of the model; an unbound \<open>sim\<close> raises NameError.
\<close>

record globals =
  sim :: "matrix option"

text \<open>Lines 111 to 118: the masks of one round, from the accumulator \<open>inter\<close>
  (written \<open>intr\<close>, the name \<open>inter\<close> being a constant of HOL).\<close>

definition mask_x :: "nat \<Rightarrow> matrix \<Rightarrow> matrix" where
  "mask_x n intr = ew1 (\<lambda>v. 1 - v) (ew1 (clip 0 1) (tile_cols (sum1 intr) n))"

definition mask_y :: "nat \<Rightarrow> matrix \<Rightarrow> matrix" where
  "mask_y m intr = ew1 (\<lambda>v. 1 - v) (ew1 (clip 0 1) (tile_rows (sum0 intr) m))"

definition degenerate :: "nat \<Rightarrow> nat \<Rightarrow> matrix \<Rightarrow> bool" where
  "degenerate m n intr = (total (mask_x n intr) < 1 \<or> total (mask_y m intr) < 1)"

definition mask :: "nat \<Rightarrow> nat \<Rightarrow> matrix \<Rightarrow> matrix" where
  "mask m n intr =
     (let ratio = 0.9;
          mk = ew1 (clip 0 1)
                 (ew2 (+) (ew1 (\<lambda>v. ratio * v) (mask_x n intr))
                          (ew1 (\<lambda>v. ratio * v) (mask_y m intr)))
      in if degenerate m n intr then ew1 (\<lambda>v. v * 0) mk else mk)"

definition mask_zeros :: "nat \<Rightarrow> nat \<Rightarrow> matrix \<Rightarrow> matrix" where
  "mask_zeros m n intr =
     (let mz = ew1 (\<lambda>v. 1 - v)
                 (ew2 (*) (ew1 (\<lambda>v. 1 - v) (mask_x n intr))
                          (ew1 (\<lambda>v. 1 - v) (mask_y m intr)))
      in if degenerate m n intr then ew1 (\<lambda>v. v * 0) mz else mz)"

definition new_sim :: "matrix \<Rightarrow> nat \<Rightarrow> nat \<Rightarrow> matrix \<Rightarrow> matrix" where
  "new_sim s m n intr = ew2 (*) s (mask m n intr)"

text \<open>Lines 120 to 123: the matches a round proposes.\<close>

definition new_matches :: "matrix \<Rightarrow> nat \<Rightarrow> nat \<Rightarrow> matrix \<Rightarrow> py_error + matrix" where
  "new_matches s m n intr =
     (case argmax_axis1 (new_sim s m n intr) of
        Inl e \<Rightarrow> Inl e
      | Inr fa \<Rightarrow>
         (case argmax_axis0 (new_sim s m n intr) of
            Inl e \<Rightarrow> Inl e
          | Inr ba \<Rightarrow>
             (let fwd = ew2 (*) (one_hot_rows n fa) (mask_zeros m n intr);
                  bac = ew2 (*) (np_transpose (one_hot_rows m ba)) (mask_zeros m n intr)
              in Inr (ew2 (*) fwd bac))))"

text \<open>The \<open>while\<close> loop of lines 108 to 127, with \<open>count\<close> and \<open>max_count\<close> Python integers.\<close>

function iter_loop ::
  "matrix \<Rightarrow> nat \<Rightarrow> nat \<Rightarrow> int \<Rightarrow> matrix \<Rightarrow> matrix \<Rightarrow> int \<Rightarrow> py_error + matrix" where
  "iter_loop s m n max_count intr new_inter count =
     (if count \<le> max_count then
        (case new_matches s m n (ew2 (+) intr new_inter) of
           Inl e \<Rightarrow> Inl e
         | Inr new_inter' \<Rightarrow>
             if ew2 (+) (ew2 (+) intr new_inter) new_inter' = ew2 (+) intr new_inter
             then Inr (ew2 (+) intr new_inter)
             else iter_loop s m n max_count (ew2 (+) intr new_inter) new_inter' (count + 1))
      else Inr intr)"
  by pat_completeness auto
termination
  by (relation "measure (\<lambda>(s, m, n, max_count, intr, new_inter, count).
        nat (max_count + 1 - count))") auto

text \<open>Lines 98 to 101: the intersection of the two argmax directions.\<close>

definition argmax_inter :: "matrix \<Rightarrow> py_error + matrix" where
  "argmax_inter s =
     (let (m, n) = shape s in
      case argmax_axis1 s of
        Inl e \<Rightarrow> Inl e
      | Inr fa \<Rightarrow>
         (case argmax_axis0 s of
            Inl e \<Rightarrow> Inl e
          | Inr ba \<Rightarrow>
             (let forward = one_hot_rows n fa;
                  backward = one_hot_rows m ba
              in Inr (ew2 (*) forward (np_transpose backward)))))"

definition iter_max :: "globals \<Rightarrow> matrix \<Rightarrow> int \<Rightarrow> py_error + matrix" where
  "iter_max g sim_matrix max_count =
     (case sim g of
        None \<Rightarrow> Inl NameError
      | Some s \<Rightarrow>
         (let (m, n) = shape s in
          case argmax_inter s of
            Inl e \<Rightarrow> Inl e
          | Inr intr \<Rightarrow>
              if min m n \<le> 2 then Inr intr
              else iter_loop s m n max_count intr (zeros m n) 0))"

section \<open>The corpus run\<close>

text \<open>
  The main program. The embedding model, the tokenizer and the module \<open>bertalign\<close> are
  outside the source file: a corpus is given as the list of matrices that
  \<open>bertalign.get_similarity\<close> returns for its sentence pairs, and the matchers of
  \<open>bertalign\<close> are parameters. \<open>matching_methods\<close> is the list of method names that
  line 201 makes of the option letters. Dictionaries keyed by method name are maps from
  strings; \<open>entropies\<close>, which is iterated in insertion order, is an association list.
\<close>

record args =
  distortion :: real
  null_align :: real
  matching_methods :: "string list"

record bertalign =
  get_alignment_matrix :: "matrix \<Rightarrow> matrix \<times> matrix"
  symmetrize :: "matrix \<Rightarrow> matrix \<Rightarrow> matrix"
  max_weight_matching :: "matrix \<Rightarrow> matrix"

text \<open>\<open>int(x)\<close> of a float truncates towards zero; a negative list index counts from the end.\<close>

definition py_int :: "real \<Rightarrow> int" where
  "py_int x = (if 0 \<le> x then \<lfloor>x\<rfloor> else \<lceil>x\<rceil>)"

definition py_index :: "'a list \<Rightarrow> int \<Rightarrow> py_error + 'a" where
  "py_index xs i =
     (if 0 \<le> i \<and> i < int (length xs) then Inr (xs ! nat i)
      else if i < 0 \<and> - int (length xs) \<le> i then Inr (xs ! nat (int (length xs) + i))
      else Inl IndexError)"

definition dict_keys :: "string list \<Rightarrow> string list" where
  "dict_keys ks = rev (remdups (rev ks))"

text \<open>Lines 242 to 246 and 296 to 299: the candidate matrices of one sentence pair.\<close>

definition methods_matrix :: "bertalign \<Rightarrow> matrix \<Rightarrow> py_error + (string \<rightharpoonup> matrix)" where
  "methods_matrix ba s =
     (let (forward, backward) = get_alignment_matrix ba s in
      case iter_max \<lparr>sim = Some s\<rparr> s 1 of
        Inl e \<Rightarrow> Inl e
      | Inr im \<Rightarrow>
          Inr [''forward'' \<mapsto> forward, ''backward'' \<mapsto> backward,
               ''inter'' \<mapsto> symmetrize ba forward backward,
               ''mwmf'' \<mapsto> max_weight_matching ba s,
               ''itermax'' \<mapsto> im])"

text \<open>Lines 248 and 249: one pass of \<open>for m in entropies\<close>.\<close>

fun gather_all ::
  "matrix \<Rightarrow> (string \<rightharpoonup> matrix) \<Rightarrow> (string \<times> npfloat list) list \<Rightarrow>
   py_error + (string \<times> npfloat list) list" where
  "gather_all s mm [] = Inr []"
| "gather_all s mm ((k, pool) # rest) =
     (case mm k of
        None \<Rightarrow> Inl KeyError
      | Some a \<Rightarrow>
         (case gather_null_aligns s a of
            Inl e \<Rightarrow> Inl e
          | Inr xs \<Rightarrow>
             (case gather_all s mm rest of
                Inl e \<Rightarrow> Inl e
              | Inr rest' \<Rightarrow> Inr ((k, pool @ xs) # rest'))))"

text \<open>Lines 209 to 249: the pooling pass over the corpus.\<close>

fun pool_corpus ::
  "bertalign \<Rightarrow> real \<Rightarrow> matrix list \<Rightarrow> (string \<times> npfloat list) list \<Rightarrow>
   py_error + (string \<times> npfloat list) list" where
  "pool_corpus ba d [] entropies = Inr entropies"
| "pool_corpus ba d (raw # rest) entropies =
     (case methods_matrix ba (apply_distortion raw d) of
        Inl e \<Rightarrow> Inl e
      | Inr mm \<Rightarrow>
         (case gather_all (apply_distortion raw d) mm entropies of
            Inl e \<Rightarrow> Inl e
          | Inr entropies' \<Rightarrow> pool_corpus ba d rest entropies'))"

text \<open>Line 250: the threshold of one pool, and the dictionary \<open>null_thresh\<close>.\<close>

definition threshold :: "real \<Rightarrow> ('a :: linorder) list \<Rightarrow> py_error + 'a" where
  "threshold k pool = py_index (sort pool) (py_int (k * real (length pool)))"

fun null_thresh ::
  "real \<Rightarrow> (string \<times> npfloat list) list \<Rightarrow> py_error + (string \<rightharpoonup> npfloat)" where
  "null_thresh k [] = Inr Map.empty"
| "null_thresh k ((m, pool) # rest) =
     (case threshold k pool of
        Inl e \<Rightarrow> Inl e
      | Inr t \<Rightarrow>
         (case null_thresh k rest of
            Inl e \<Rightarrow> Inl e
          | Inr d \<Rightarrow> Inr (d(m \<mapsto> t))))"

definition calibrate ::
  "bertalign \<Rightarrow> args \<Rightarrow> matrix list \<Rightarrow> py_error + (string \<rightharpoonup> npfloat)" where
  "calibrate ba a corpus =
     (case pool_corpus ba (distortion a) corpus
             (map (\<lambda>x. (x, [])) (dict_keys (matching_methods a))) of
        Inl e \<Rightarrow> Inl e
      | Inr entropies \<Rightarrow> null_thresh (null_align a) entropies)"

text \<open>Line 294: the masks of one sentence pair.\<close>

fun mask_nulls ::
  "matrix \<Rightarrow> (string \<rightharpoonup> npfloat) \<Rightarrow> string list \<Rightarrow> py_error + (string \<rightharpoonup> matrix)" where
  "mask_nulls s nt [] = Inr Map.empty"
| "mask_nulls s nt (mmethod # rest) =
     (case nt mmethod of
        None \<Rightarrow> Inl KeyError
      | Some t \<Rightarrow>
         (case mask_nulls s nt rest of
            Inl e \<Rightarrow> Inl e
          | Inr d \<Rightarrow> Inr (d(mmethod \<mapsto> apply_percentile_null_aligns s t))))"

definition masked :: "(string \<rightharpoonup> matrix) \<Rightarrow> string \<Rightarrow> matrix \<Rightarrow> py_error + matrix" where
  "masked d k a = (case d k of None \<Rightarrow> Inl KeyError | Some mk \<Rightarrow> np_binop (*) a mk)"

text \<open>Lines 291 to 303: the final matrices \<open>all_mats\<close> of one sentence pair.\<close>

definition all_mats ::
  "bertalign \<Rightarrow> args \<Rightarrow> (string \<rightharpoonup> npfloat) \<Rightarrow> matrix \<Rightarrow> py_error + (string \<rightharpoonup> matrix)" where
  "all_mats ba a nt raw =
     (let s = apply_distortion raw (distortion a) in
      case (if null_align a < 1 then mask_nulls s nt (matching_methods a) else Inr Map.empty) of
        Inl e \<Rightarrow> Inl e
      | Inr mn \<Rightarrow>
         (let (f, r) = get_alignment_matrix ba s in
          case iter_max \<lparr>sim = Some s\<rparr> s 1 of
            Inl e \<Rightarrow> Inl e
          | Inr im \<Rightarrow>
              if null_align a < 1 then
                (case masked mn ''inter'' (symmetrize ba f r) of
                   Inl e \<Rightarrow> Inl e
                 | Inr i' \<Rightarrow>
                    (case masked mn ''mwmf'' (max_weight_matching ba s) of
                       Inl e \<Rightarrow> Inl e
                     | Inr w' \<Rightarrow>
                        (case masked mn ''itermax'' im of
                           Inl e \<Rightarrow> Inl e
                         | Inr im' \<Rightarrow>
                             Inr [''fwd'' \<mapsto> f, ''rev'' \<mapsto> r, ''inter'' \<mapsto> i',
                                  ''mwmf'' \<mapsto> w', ''itermax'' \<mapsto> im'])))
              else
                Inr [''fwd'' \<mapsto> f, ''rev'' \<mapsto> r, ''inter'' \<mapsto> symmetrize ba f r,
                     ''mwmf'' \<mapsto> max_weight_matching ba s, ''itermax'' \<mapsto> im]))"

fun for_each :: "('a \<Rightarrow> py_error + 'b) \<Rightarrow> 'a list \<Rightarrow> py_error + 'b list" where
  "for_each f [] = Inr []"
| "for_each f (x # xs) =
     (case f x of
        Inl e \<Rightarrow> Inl e
      | Inr y \<Rightarrow> (case for_each f xs of Inl e \<Rightarrow> Inl e | Inr ys \<Rightarrow> Inr (y # ys)))"

text \<open>Lines 207 to 303: both passes; the result is \<open>all_mats\<close> of every sentence pair.\<close>

definition run :: "bertalign \<Rightarrow> args \<Rightarrow> matrix list \<Rightarrow> py_error + (string \<rightharpoonup> matrix) list" where
  "run ba a corpus =
     (case (if null_align a < 1 then calibrate ba a corpus else Inr Map.empty) of
        Inl e \<Rightarrow> Inl e
      | Inr nt \<Rightarrow> for_each (all_mats ba a nt) corpus)"

section \<open>The specification's wording\<close>

text \<open>
  A run with the null-alignment filter disabled, as the specification describes it: no
  calibration pass, no masks; every sentence pair yields its candidate matrices as they are.
\<close>

definition unfiltered_mats :: "bertalign \<Rightarrow> real \<Rightarrow> matrix \<Rightarrow> py_error + (string \<rightharpoonup> matrix)" where
  "unfiltered_mats ba d raw =
     (let s = apply_distortion raw d; (f, r) = get_alignment_matrix ba s in
      case iter_max \<lparr>sim = Some s\<rparr> s 1 of
        Inl e \<Rightarrow> Inl e
      | Inr im \<Rightarrow>
          Inr [''fwd'' \<mapsto> f, ''rev'' \<mapsto> r, ''inter'' \<mapsto> symmetrize ba f r,
               ''mwmf'' \<mapsto> max_weight_matching ba s, ''itermax'' \<mapsto> im])"

definition run_unfiltered ::
  "bertalign \<Rightarrow> real \<Rightarrow> matrix list \<Rightarrow> py_error + (string \<rightharpoonup> matrix) list" where
  "run_unfiltered ba d corpus = for_each (unfiltered_mats ba d) corpus"


text \<open>
  The masks of a refinement round as section 4.2 of the specification words them, from
  \<open>rowSatisfied\<close> and \<open>colSatisfied\<close>, the clipped row and column sums of the accumulator.
\<close>

definition row_satisfied :: "matrix \<Rightarrow> nat \<Rightarrow> real" where
  "row_satisfied a i = clip 0 1 (sum_list (a ! i))"

definition col_satisfied :: "matrix \<Rightarrow> nat \<Rightarrow> real" where
  "col_satisfied a j = clip 0 1 (sum_list (map (\<lambda>r. r ! j) a))"

definition spec_damping_mask :: "nat \<Rightarrow> nat \<Rightarrow> matrix \<Rightarrow> matrix" where
  "spec_damping_mask m n a =
     [[clip 0 1 (0.9 * row_satisfied a i + 0.9 * col_satisfied a j). j \<leftarrow> [0..<n]]. i \<leftarrow> [0..<m]]"

definition spec_damped_sim :: "matrix \<Rightarrow> nat \<Rightarrow> nat \<Rightarrow> matrix \<Rightarrow> matrix" where
  "spec_damped_sim s m n a =
     [[s ! i ! j * (1 - spec_damping_mask m n a ! i ! j). j \<leftarrow> [0..<n]]. i \<leftarrow> [0..<m]]"

definition spec_zero_mask :: "nat \<Rightarrow> nat \<Rightarrow> matrix \<Rightarrow> matrix" where
  "spec_zero_mask m n a =
     [[1 - (1 - row_satisfied a i) * (1 - col_satisfied a j). j \<leftarrow> [0..<n]]. i \<leftarrow> [0..<m]]"

text \<open>
  The accumulator after \<open>j\<close> refinement rounds, each adding its new matches, and the
  test that a round leaves the accumulator as it is.
\<close>

fun rounds :: "matrix \<Rightarrow> nat \<Rightarrow> nat \<Rightarrow> nat \<Rightarrow> matrix \<Rightarrow> py_error + matrix" where
  "rounds s m n 0 a = Inr a"
| "rounds s m n (Suc j) a =
     (case new_matches s m n a of
        Inl e \<Rightarrow> Inl e
      | Inr d \<Rightarrow> rounds s m n j (ew2 (+) a d))"

definition fixed_point :: "matrix \<Rightarrow> nat \<Rightarrow> nat \<Rightarrow> matrix \<Rightarrow> bool" where
  "fixed_point s m n a =
     (case new_matches s m n a of Inl e \<Rightarrow> False | Inr d \<Rightarrow> ew2 (+) a d = a)"

text \<open>An array of \<open>m\<close> rows, each of length \<open>n\<close>.\<close>

definition has_shape :: "nat \<Rightarrow> nat \<Rightarrow> 'a list list \<Rightarrow> bool" where
  "has_shape m n a = (length a = m \<and> list_all (\<lambda>r. length r = n) a)"

text \<open>An array whose entries are all 0 or 1.\<close>

definition binary :: "matrix \<Rightarrow> bool" where
  "binary a = list_all (list_all (\<lambda>v. v = 0 \<or> v = 1)) a"

section \<open>Facts about arrays\<close>

lemma shape_fst [simp]: "fst (shape a) = length a"
  by (simp add: shape_def)

lemma ndarray_row: "ndarray a \<Longrightarrow> i < length a \<Longrightarrow> length (a ! i) = snd (shape a)"
  by (simp add: ndarray_def list_all_length)

lemma shape_rows: "shape [f i. i \<leftarrow> [0..<m]] = (m, if m = 0 then 0 else length (f 0))"
  by (cases m) (simp_all add: shape_def hd_map upt_conv_Cons del: upt_Suc)

lemma ew2_nth:
  "i < length a \<Longrightarrow> i < length b \<Longrightarrow> j < length (a ! i) \<Longrightarrow> j < length (b ! i) \<Longrightarrow>
   ew2 f a b ! i ! j = f (a ! i ! j) (b ! i ! j)"
  by (simp add: ew2_def)

lemma ew2_length [simp]: "length (ew2 f a b) = min (length a) (length b)"
  by (simp add: ew2_def)

lemma ew2_row_length:
  "i < length a \<Longrightarrow> i < length b \<Longrightarrow> length (ew2 f a b ! i) = min (length (a ! i)) (length (b ! i))"
  by (simp add: ew2_def)

lemma ew1_nth: "i < length a \<Longrightarrow> j < length (a ! i) \<Longrightarrow> ew1 f a ! i ! j = f (a ! i ! j)"
  by (simp add: ew1_def)

lemma ew1_length [simp]: "length (ew1 f a) = length a"
  by (simp add: ew1_def)

lemma ew1_row_length: "i < length a \<Longrightarrow> length (ew1 f a ! i) = length (a ! i)"
  by (simp add: ew1_def)

section \<open>apply_distortion: the contract\<close>

lemma np_transpose_nth:
  "j < snd (shape a) \<Longrightarrow> i < length a \<Longrightarrow> np_transpose a ! j ! i = a ! i ! j"
  by (simp add: np_transpose_def)

lemma apply_distortion_small:
  "shape S = (m, n) \<Longrightarrow> m < 2 \<or> n < 2 \<or> r = 0 \<Longrightarrow> apply_distortion S r = S"
  by (auto simp: apply_distortion_def)

lemma apply_distortion_length:
  assumes "shape S = (m, n)" shows "length (apply_distortion S r) = m"
proof (cases "(m < 2 \<or> n < 2) \<or> r = 0")
  case True
  then show ?thesis using assms by (auto simp: apply_distortion_def shape_def)
next
  case False
  have "shape [[real x / real (m - 1). x \<leftarrow> [0..<m]]. y \<leftarrow> [0..<n]] = (n, m)"
    using False by (simp add: shape_rows)
  then show ?thesis using assms False
    by (simp add: apply_distortion_def Let_def np_transpose_def shape_def)
qed

lemma apply_distortion_cell:
  assumes sh: "shape S = (m, n)" and nd: "ndarray S" and big: "2 \<le> m" "2 \<le> n" "r \<noteq> 0"
    and i: "i < m" and j: "j < n"
  shows "length (apply_distortion S r ! i) = n"
    and "apply_distortion S r ! i ! j =
           S ! i ! j * (1 - r * (real j / real (n - 1) - real i / real (m - 1))\<^sup>2)"
proof -
  have lenS: "length S = m" using sh by (simp add: shape_def)
  have row: "length (S ! i) = n" using ndarray_row[OF nd] i lenS sh by simp
  let ?px = "[[real y / real (n - 1). y \<leftarrow> [0..<n]]. x \<leftarrow> [0..<m]]"
  let ?py = "[[real x / real (m - 1). x \<leftarrow> [0..<m]]. y \<leftarrow> [0..<n]]"
  have shpy: "shape ?py = (n, m)" using big by (simp add: shape_rows)
  have tl: "length (np_transpose ?py) = m" using shpy by (simp add: np_transpose_def)
  have trow: "length (np_transpose ?py ! i) = n" using shpy i by (simp add: np_transpose_def)
  have tij: "np_transpose ?py ! i ! j = real i / real (m - 1)"
    using shpy i j by (simp add: np_transpose_def)
  have eq: "apply_distortion S r =
      ew2 (*) S (ew1 (\<lambda>v. 1 - v\<^sup>2 * r) (ew2 (-) ?px (np_transpose ?py)))"
    using sh big by (simp add: apply_distortion_def Let_def)
  show "length (apply_distortion S r ! i) = n"
    unfolding eq using i j lenS row tl trow
    by (simp add: ew2_row_length ew1_row_length)
  show "apply_distortion S r ! i ! j =
           S ! i ! j * (1 - r * (real j / real (n - 1) - real i / real (m - 1))\<^sup>2)"
    unfolding eq using i j lenS row tl trow tij
    by (simp add: ew2_nth ew1_nth ew2_row_length ew1_row_length mult.commute)
qed

lemma shape_eqI:
  "length a = m \<Longrightarrow> (0 < m \<Longrightarrow> length (a ! 0) = n) \<Longrightarrow> (m = 0 \<Longrightarrow> n = 0) \<Longrightarrow> shape a = (m, n)"
  by (cases a) (auto simp: shape_def)

text \<open>
  Claim C5. \<open>apply_distortion\<close> returns its input unchanged when the matrix has fewer than
  two rows or fewer than two columns or the ratio is 0. Otherwise the result has the shape of
  the input, and its entry at \<open>(i, j)\<close> is the input's entry multiplied by
  \<open>1 - r (j / (n - 1) - i / (m - 1))\<^sup>2\<close>.
\<close>

theorem apply_distortion_contract:
  assumes sh: "shape S = (m, n)"
  shows "(m < 2 \<or> n < 2 \<or> r = 0 \<longrightarrow> apply_distortion S r = S) \<and>
         (ndarray S \<and> 2 \<le> m \<and> 2 \<le> n \<and> r \<noteq> 0 \<longrightarrow>
            shape (apply_distortion S r) = (m, n) \<and>
            (\<forall>i<m. \<forall>j<n. apply_distortion S r ! i ! j =
               S ! i ! j * (1 - r * (real j / real (n - 1) - real i / real (m - 1))\<^sup>2)))"
proof (intro conjI impI allI)
  assume "m < 2 \<or> n < 2 \<or> r = 0"
  then show "apply_distortion S r = S" by (rule apply_distortion_small[OF sh])
next
  assume a: "ndarray S \<and> 2 \<le> m \<and> 2 \<le> n \<and> r \<noteq> 0"
  then have "length (apply_distortion S r ! 0) = n"
    using apply_distortion_cell(1)[OF sh, of r 0 0] by simp
  then show "shape (apply_distortion S r) = (m, n)"
    using a by (intro shape_eqI) (simp_all add: apply_distortion_length[OF sh])
next
  fix i j
  assume a: "ndarray S \<and> 2 \<le> m \<and> 2 \<le> n \<and> r \<noteq> 0" and "i < m" "j < n"
  then show "apply_distortion S r ! i ! j =
               S ! i ! j * (1 - r * (real j / real (n - 1) - real i / real (m - 1))\<^sup>2)"
    using apply_distortion_cell(2)[OF sh] by simp
qed

theorem apply_distortion_contract_witness:
  "shape [[1, 1/2], [1/4, 1 :: real]] = (2, 2) \<and> ndarray [[1, 1/2], [1/4, 1 :: real]] \<and>
   apply_distortion [[1, 1/2], [1/4, 1]] (1/2) ! 0 ! 1 = 1/4 \<and>
   apply_distortion [[1, 1/2], [1/4, 1]] 0 = [[1, 1/2], [1/4, 1]]"
proof -
  have sh: "shape [[1, 1/2], [1/4, 1 :: real]] = (2, 2)" by (simp add: shape_def)
  have nd: "ndarray [[1, 1/2], [1/4, 1 :: real]]" by (simp add: ndarray_def shape_def)
  have "apply_distortion [[1, 1/2], [1/4, 1]] (1/2) ! 0 ! 1 = 1/4"
    using apply_distortion_contract[OF sh, of "1/2"] nd by (simp add: power2_eq_square)
  moreover have "apply_distortion [[1, 1/2], [1/4, 1]] 0 = [[1, 1/2], [1/4, 1]]"
    using apply_distortion_contract[OF sh, of 0] by simp
  ultimately show ?thesis using sh nd by simp
qed

section \<open>Shapes\<close>

lemma has_shapeI: "length a = m \<Longrightarrow> (\<And>i. i < m \<Longrightarrow> length (a ! i) = n) \<Longrightarrow> has_shape m n a"
  by (simp add: has_shape_def list_all_length)

lemma has_shape_length: "has_shape m n a \<Longrightarrow> length a = m"
  by (simp add: has_shape_def)

lemma has_shape_row: "has_shape m n a \<Longrightarrow> i < m \<Longrightarrow> length (a ! i) = n"
  by (simp add: has_shape_def list_all_length)

lemma has_shape_shape: "has_shape m n a \<Longrightarrow> 0 < m \<Longrightarrow> shape a = (m, n)"
  by (rule shape_eqI) (simp_all add: has_shape_length has_shape_row)

lemma has_shape_of_ndarray: "ndarray a \<Longrightarrow> shape a = (m, n) \<Longrightarrow> has_shape m n a"
  by (auto simp: has_shape_def ndarray_def shape_def)

lemma has_shape_ndarray: "has_shape m n a \<Longrightarrow> 0 < m \<Longrightarrow> ndarray a"
  using has_shape_shape[of m n a] by (simp add: ndarray_def has_shape_def)

lemma has_shape_ew1: "has_shape m n a \<Longrightarrow> has_shape m n (ew1 f a)"
  by (rule has_shapeI) (simp_all add: has_shape_length has_shape_row ew1_row_length)

lemma has_shape_ew2: "has_shape m n a \<Longrightarrow> has_shape m n b \<Longrightarrow> has_shape m n (ew2 f a b)"
  by (rule has_shapeI) (simp_all add: has_shape_length has_shape_row ew2_row_length)

lemma has_shape_tile_cols: "length v = m \<Longrightarrow> has_shape m n (tile_cols v n)"
  by (rule has_shapeI) (simp_all add: tile_cols_def)

lemma has_shape_tile_rows: "length v = n \<Longrightarrow> has_shape m n (tile_rows v m)"
  by (rule has_shapeI) (simp_all add: tile_rows_def)

lemma has_shape_zeros: "has_shape m n (zeros m n)"
  by (rule has_shapeI) (simp_all add: zeros_def)

lemma has_shape_ones: "has_shape m n (ones m n)"
  by (rule has_shapeI) (simp_all add: ones_def)

lemma has_shape_transpose: "has_shape m n a \<Longrightarrow> 0 < m \<Longrightarrow> has_shape n m (np_transpose a)"
  using has_shape_shape[of m n a]
  by (intro has_shapeI) (simp_all add: np_transpose_def has_shape_length)

lemma has_shape_one_hot_rows:
  "length idx = m \<Longrightarrow> (\<And>i. i < m \<Longrightarrow> idx ! i < n) \<Longrightarrow> has_shape m n (one_hot_rows n idx)"
  by (rule has_shapeI) (simp_all add: one_hot_rows_def eye_def)

lemma one_hot_rows_nth:
  "i < length idx \<Longrightarrow> idx ! i < n \<Longrightarrow> j < n \<Longrightarrow>
   one_hot_rows n idx ! i ! j = (if idx ! i = j then 1 else 0)"
  by (simp add: one_hot_rows_def eye_def)

lemma hs_ew1_nth: "has_shape m n a \<Longrightarrow> i < m \<Longrightarrow> j < n \<Longrightarrow> ew1 f a ! i ! j = f (a ! i ! j)"
  by (simp add: ew1_nth has_shape_length has_shape_row)

lemma hs_ew2_nth:
  "has_shape m n a \<Longrightarrow> has_shape m n b \<Longrightarrow> i < m \<Longrightarrow> j < n \<Longrightarrow>
   ew2 f a b ! i ! j = f (a ! i ! j) (b ! i ! j)"
  by (simp add: ew2_nth has_shape_length has_shape_row)

lemma hs_transpose_nth:
  "has_shape m n a \<Longrightarrow> i < m \<Longrightarrow> j < n \<Longrightarrow> np_transpose a ! j ! i = a ! i ! j"
  using has_shape_shape[of m n a] by (simp add: np_transpose_nth has_shape_length)

lemma tile_cols_nth: "i < length v \<Longrightarrow> j < n \<Longrightarrow> tile_cols v n ! i ! j = v ! i"
  by (simp add: tile_cols_def)

lemma tile_rows_nth: "i < m \<Longrightarrow> tile_rows v m ! i ! j = v ! j"
  by (simp add: tile_rows_def)

lemma matrix_eqI:
  assumes "has_shape m n a" "has_shape m n b"
    and "\<And>i j. i < m \<Longrightarrow> j < n \<Longrightarrow> a ! i ! j = b ! i ! j"
  shows "a = b"
proof (rule nth_equalityI)
  show "length a = length b" using assms(1,2) by (simp add: has_shape_length)
  fix i assume "i < length a"
  then have i: "i < m" using assms(1) by (simp add: has_shape_length)
  show "a ! i = b ! i"
    by (rule nth_equalityI) (use i assms in \<open>simp_all add: has_shape_row\<close>)
qed

lemma argmax_from_bound: "best < i \<Longrightarrow> argmax_from best bv i xs < i + length xs"
proof (induction xs arbitrary: best bv i)
  case Nil
  then show ?case by simp
next
  case (Cons x xs)
  have "argmax_from i x (Suc i) xs < Suc i + length xs" by (rule Cons.IH) simp
  moreover have "argmax_from best bv (Suc i) xs < Suc i + length xs"
    by (rule Cons.IH) (use Cons.prems in simp)
  ultimately show ?case by simp
qed

lemma argmax_less: "xs \<noteq> [] \<Longrightarrow> argmax xs < length xs"
  using argmax_from_bound[of 0 1] by (cases xs) (auto simp: argmax_def)

section \<open>The threshold rank\<close>

lemma py_int_rank:
  assumes "0 < L" "0 \<le> k" "k < 1"
  shows "0 \<le> py_int (k * real L)" and "py_int (k * real L) < int L"
proof -
  have nn: "0 \<le> k * real L" using assms by simp
  then show "0 \<le> py_int (k * real L)" by (simp add: py_int_def)
  have "k * real L < 1 * real L" using assms by (intro mult_strict_right_mono) simp_all
  then have "\<lfloor>k * real L\<rfloor> < int L" by (simp add: floor_less_iff)
  then show "py_int (k * real L) < int L" using nn by (simp add: py_int_def)
qed

text \<open>
  Claim C10. For a non-empty pool of length \<open>L\<close> and a keep-fraction \<open>0 \<le> k < 1\<close> the
  rank \<open>int(k L)\<close> lies between 0 and \<open>L - 1\<close>, so line 250 reads a position of the sorted
  pool that exists and yields that entry.
\<close>

theorem threshold_rank_in_bounds:
  assumes "pool \<noteq> []" "0 \<le> k" "k < 1"
  shows "0 \<le> py_int (k * real (length pool)) \<and>
         py_int (k * real (length pool)) \<le> int (length pool) - 1 \<and>
         threshold k pool = Inr (sort pool ! nat (py_int (k * real (length pool))))"
proof -
  have L: "0 < length pool" using assms(1) by simp
  note r = py_int_rank[OF L assms(2,3)]
  show ?thesis using r by (simp add: threshold_def py_index_def)
qed

theorem threshold_rank_in_bounds_witness:
  "[0.4, 0.1, 0.7] \<noteq> ([] :: real list) \<and> (0::real) \<le> 1/2 \<and> (1/2 :: real) < 1 \<and>
   py_int (1/2 * real (length [0.4, 0.1, 0.7 :: real])) = 1 \<and>
   threshold (1/2) [0.4, 0.1, 0.7 :: real] = Inr 0.4"
proof -
  have f: "py_int (1/2 * real (length [0.4, 0.1, 0.7 :: real])) = 1"
    by (simp add: py_int_def)
  have "threshold (1/2) [0.4, 0.1, 0.7 :: real] = Inr (sort [0.4, 0.1, 0.7 :: real] ! nat 1)"
    using threshold_rank_in_bounds[of "[0.4, 0.1, 0.7 :: real]" "1/2"] f by simp
  then show ?thesis using f by simp
qed

section \<open>Shapes inside iter_max\<close>

lemma sum1_length [simp]: "length (sum1 a) = length a"
  by (simp add: sum1_def)

lemma sum0_length: "has_shape m n a \<Longrightarrow> 0 < m \<Longrightarrow> length (sum0 a) = n"
  using has_shape_transpose[of m n a] by (simp add: sum0_def has_shape_length)

lemma sum1_nth: "i < length a \<Longrightarrow> sum1 a ! i = sum_list (a ! i)"
  by (simp add: sum1_def)

lemma sum0_nth: "has_shape m n a \<Longrightarrow> 0 < m \<Longrightarrow> j < n \<Longrightarrow> sum0 a ! j = sum_list (map (\<lambda>r. r ! j) a)"
  using has_shape_shape[of m n a] by (simp add: sum0_def np_transpose_def)

lemma has_shape_mask_x: "has_shape m n a \<Longrightarrow> has_shape m n (mask_x n a)"
  unfolding mask_x_def
  by (intro has_shape_ew1 has_shape_tile_cols) (simp add: has_shape_length)

lemma has_shape_mask_y: "has_shape m n a \<Longrightarrow> 0 < m \<Longrightarrow> has_shape m n (mask_y m a)"
  unfolding mask_y_def
  by (intro has_shape_ew1 has_shape_tile_rows) (simp add: sum0_length)

lemma has_shape_mask: "has_shape m n a \<Longrightarrow> 0 < m \<Longrightarrow> has_shape m n (mask m n a)"
  unfolding mask_def Let_def
  by (simp add: has_shape_ew1 has_shape_ew2 has_shape_mask_x has_shape_mask_y)

lemma has_shape_mask_zeros: "has_shape m n a \<Longrightarrow> 0 < m \<Longrightarrow> has_shape m n (mask_zeros m n a)"
  unfolding mask_zeros_def Let_def
  by (simp add: has_shape_ew1 has_shape_ew2 has_shape_mask_x has_shape_mask_y)

lemma has_shape_new_sim:
  "has_shape m n s \<Longrightarrow> has_shape m n a \<Longrightarrow> 0 < m \<Longrightarrow> has_shape m n (new_sim s m n a)"
  unfolding new_sim_def by (simp add: has_shape_ew2 has_shape_mask)

lemma argmax_axis1_ok:
  assumes "has_shape m n a" "0 < m" "0 < n"
  shows "argmax_axis1 a = Inr (map argmax a)"
    and "has_shape m n (one_hot_rows n (map argmax a))"
proof -
  show "argmax_axis1 a = Inr (map argmax a)"
    using has_shape_shape[OF assms(1,2)] assms(3) by (simp add: argmax_axis1_def)
  show "has_shape m n (one_hot_rows n (map argmax a))"
  proof (rule has_shape_one_hot_rows)
    show "length (map argmax a) = m" using assms(1) by (simp add: has_shape_length)
    fix i assume i: "i < m"
    then have "length (a ! i) = n" using assms(1) by (simp add: has_shape_row)
    then have "argmax (a ! i) < n" using argmax_less[of "a ! i"] assms(3) by auto
    then show "map argmax a ! i < n" using i assms(1) by (simp add: has_shape_length)
  qed
qed

lemma argmax_axis0_ok:
  assumes "has_shape m n a" "0 < m" "0 < n"
  shows "argmax_axis0 a = Inr (map argmax (np_transpose a))"
    and "has_shape m n (np_transpose (one_hot_rows m (map argmax (np_transpose a))))"
proof -
  show "argmax_axis0 a = Inr (map argmax (np_transpose a))"
    using assms by (simp add: argmax_axis0_def has_shape_length)
  have t: "has_shape n m (np_transpose a)" using assms by (simp add: has_shape_transpose)
  have "has_shape n m (one_hot_rows m (map argmax (np_transpose a)))"
    using argmax_axis1_ok(2)[OF t assms(3,2)] .
  then show "has_shape m n (np_transpose (one_hot_rows m (map argmax (np_transpose a))))"
    using assms(3) by (rule has_shape_transpose)
qed

lemma new_matches_ok:
  assumes "has_shape m n s" "has_shape m n a" "0 < m" "0 < n"
  shows "\<exists>d. new_matches s m n a = Inr d \<and> has_shape m n d"
proof -
  have ns: "has_shape m n (new_sim s m n a)" using assms by (simp add: has_shape_new_sim)
  have mz: "has_shape m n (mask_zeros m n a)" using assms by (simp add: has_shape_mask_zeros)
  show ?thesis
    unfolding new_matches_def
    using argmax_axis1_ok[OF ns assms(3,4)] argmax_axis0_ok[OF ns assms(3,4)] mz
    by (simp add: has_shape_ew2)
qed

lemma argmax_inter_ok:
  assumes "has_shape m n s" "0 < m" "0 < n"
  shows "\<exists>i0. argmax_inter s = Inr i0 \<and> has_shape m n i0"
  unfolding argmax_inter_def
  using argmax_axis1_ok[OF assms] argmax_axis0_ok[OF assms] has_shape_shape[OF assms(1,2)]
  by (simp add: has_shape_ew2)

lemma zeros_nth: "i < m \<Longrightarrow> j < n \<Longrightarrow> zeros m n ! i ! j = 0"
  by (simp add: zeros_def)

lemma ew2_add_zeros:
  assumes "has_shape m n a" shows "ew2 (+) a (zeros m n) = a"
proof (rule matrix_eqI[of m n])
  show "has_shape m n (ew2 (+) a (zeros m n))"
    using assms by (simp add: has_shape_ew2 has_shape_zeros)
  show "has_shape m n a" by fact
  fix i j assume "i < m" "j < n"
  then show "ew2 (+) a (zeros m n) ! i ! j = a ! i ! j"
    using assms by (simp add: hs_ew2_nth has_shape_zeros zeros_nth)
qed

section \<open>The loop of iter_max\<close>

lemma iter_loop_rounds:
  assumes s: "has_shape m n s" and pos: "0 < m" "0 < n"
  shows "has_shape m n intr \<Longrightarrow> has_shape m n new \<Longrightarrow> count \<le> K \<Longrightarrow> nat (K - count) = k \<Longrightarrow>
         \<exists>j r. j \<le> k \<and> iter_loop s m n K intr new count = Inr r \<and>
               rounds s m n j (ew2 (+) intr new) = Inr r \<and>
               (j < k \<longrightarrow> fixed_point s m n r) \<and>
               (\<forall>i<j. \<forall>b. rounds s m n i (ew2 (+) intr new) = Inr b \<longrightarrow> \<not> fixed_point s m n b)"
proof (induction k arbitrary: intr new count)
  case 0
  let ?a = "ew2 (+) intr new"
  have a: "has_shape m n ?a" using 0 by (simp add: has_shape_ew2)
  obtain d where d: "new_matches s m n ?a = Inr d" "has_shape m n d"
    using new_matches_ok[OF s a pos] by blast
  have cK: "count = K" using 0 by simp
  show ?case
  proof (cases "ew2 (+) ?a d = ?a")
    case True
    then have "iter_loop s m n K intr new count = Inr ?a" using d cK by simp
    then show ?thesis by (intro exI[of _ 0] exI[of _ ?a]) simp
  next
    case False
    then have "iter_loop s m n K intr new count = Inr ?a"
      using d cK by (simp add: iter_loop.simps[of s m n K ?a d "K + 1"])
    then show ?thesis by (intro exI[of _ 0] exI[of _ ?a]) simp
  qed
next
  case (Suc k)
  let ?a = "ew2 (+) intr new"
  have a: "has_shape m n ?a" using Suc.prems by (simp add: has_shape_ew2)
  obtain d where d: "new_matches s m n ?a = Inr d" "has_shape m n d"
    using new_matches_ok[OF s a pos] by blast
  show ?case
  proof (cases "ew2 (+) ?a d = ?a")
    case True
    then have "iter_loop s m n K intr new count = Inr ?a" using d Suc.prems by simp
    moreover have "fixed_point s m n ?a" using d True by (simp add: fixed_point_def)
    ultimately show ?thesis by (intro exI[of _ 0] exI[of _ ?a]) simp
  next
    case False
    have nf: "\<not> fixed_point s m n ?a" using d False by (simp add: fixed_point_def)
    have step: "iter_loop s m n K intr new count = iter_loop s m n K ?a d (count + 1)"
      using d False Suc.prems by simp
    have "count + 1 \<le> K" "nat (K - (count + 1)) = k" using Suc.prems by simp_all
    from Suc.IH[OF a d(2) this]
    obtain j r where jr: "j \<le> k" "iter_loop s m n K ?a d (count + 1) = Inr r"
      "rounds s m n j (ew2 (+) ?a d) = Inr r" "j < k \<longrightarrow> fixed_point s m n r"
      "\<forall>i<j. \<forall>b. rounds s m n i (ew2 (+) ?a d) = Inr b \<longrightarrow> \<not> fixed_point s m n b"
      by blast
    have r1: "rounds s m n (Suc j) ?a = Inr r" using jr(3) d by simp
    have r2: "\<forall>i<Suc j. \<forall>b. rounds s m n i ?a = Inr b \<longrightarrow> \<not> fixed_point s m n b"
    proof (intro allI impI)
      fix i b assume i: "i < Suc j" and b: "rounds s m n i ?a = Inr b"
      show "\<not> fixed_point s m n b"
      proof (cases i)
        case 0
        then show ?thesis using b nf by simp
      next
        case (Suc i')
        then show ?thesis using b i jr(5) d by simp
      qed
    qed
    show ?thesis
      using jr(1,2,4) r1 r2 step by (intro exI[of _ "Suc j"] exI[of _ r]) simp
  qed
qed

section \<open>The argmax intersection\<close>

lemma argmax_from_first_max:
  assumes "length pre = i" "best < i" "pre ! best = bv"
    and "\<forall>k<i. pre ! k \<le> bv" and "\<forall>k<best. pre ! k < bv"
  shows "(\<forall>k<i + length xs. (pre @ xs) ! k \<le> (pre @ xs) ! argmax_from best bv i xs) \<and>
         (\<forall>k<argmax_from best bv i xs. (pre @ xs) ! k < (pre @ xs) ! argmax_from best bv i xs)"
  using assms
proof (induction xs arbitrary: pre best bv i)
  case Nil
  then show ?case by simp
next
  case (Cons x xs)
  let ?pre = "pre @ [x]"
  have len: "length ?pre = Suc i" using Cons.prems by simp
  show ?case
  proof (cases "bv < x")
    case True
    have "(\<forall>k<Suc i + length xs. (?pre @ xs) ! k \<le> (?pre @ xs) ! argmax_from i x (Suc i) xs) \<and>
          (\<forall>k<argmax_from i x (Suc i) xs. (?pre @ xs) ! k < (?pre @ xs) ! argmax_from i x (Suc i) xs)"
    proof (rule Cons.IH[OF len])
      show "i < Suc i" by simp
      show "?pre ! i = x" using Cons.prems(1) by (simp add: nth_append)
      show "\<forall>k<Suc i. ?pre ! k \<le> x"
        using Cons.prems(1,4) True by (auto simp: nth_append less_Suc_eq)
      show "\<forall>k<i. ?pre ! k < x"
        using Cons.prems(1,4) True by (auto simp: nth_append)
    qed
    then show ?thesis using True by simp
  next
    case False
    have "(\<forall>k<Suc i + length xs. (?pre @ xs) ! k \<le> (?pre @ xs) ! argmax_from best bv (Suc i) xs) \<and>
          (\<forall>k<argmax_from best bv (Suc i) xs. (?pre @ xs) ! k < (?pre @ xs) ! argmax_from best bv (Suc i) xs)"
    proof (rule Cons.IH[OF len])
      show "best < Suc i" using Cons.prems(2) by simp
      show "?pre ! best = bv" using Cons.prems(1,2,3) by (simp add: nth_append)
      show "\<forall>k<Suc i. ?pre ! k \<le> bv"
        using Cons.prems(1,4) False by (auto simp: nth_append less_Suc_eq)
      show "\<forall>k<best. ?pre ! k < bv"
        using Cons.prems(1,2,5) by (auto simp: nth_append)
    qed
    then show ?thesis using False by simp
  qed
qed

lemma argmax_first_maximum:
  assumes "xs \<noteq> []"
  shows "argmax xs < length xs"
    and "\<forall>k<length xs. xs ! k \<le> xs ! argmax xs"
    and "\<forall>k<argmax xs. xs ! k < xs ! argmax xs"
proof -
  obtain x r where xs: "xs = x # r" using assms by (cases xs) auto
  have "(\<forall>k<1 + length r. ([x] @ r) ! k \<le> ([x] @ r) ! argmax_from 0 x 1 r) \<and>
        (\<forall>k<argmax_from 0 x 1 r. ([x] @ r) ! k < ([x] @ r) ! argmax_from 0 x 1 r)"
    by (rule argmax_from_first_max) simp_all
  then show "\<forall>k<length xs. xs ! k \<le> xs ! argmax xs"
    and "\<forall>k<argmax xs. xs ! k < xs ! argmax xs"
    by (simp_all add: xs argmax_def)
  show "argmax xs < length xs" using assms by (rule argmax_less)
qed

lemma argmax_inter_cells:
  assumes hs: "has_shape m n s" and pos: "0 < m" "0 < n"
  shows "argmax_inter s =
           Inr [[if argmax (s ! i) = j \<and> argmax (map (\<lambda>r. r ! j) s) = i then 1 else 0.
                 j \<leftarrow> [0..<n]]. i \<leftarrow> [0..<m]]"
proof -
  let ?fa = "map argmax s" and ?ba = "map argmax (np_transpose s)"
  let ?f = "one_hot_rows n ?fa" and ?b = "one_hot_rows m ?ba"
  let ?R = "[[if argmax (s ! i) = j \<and> argmax (map (\<lambda>r. r ! j) s) = i then 1 else 0.
                 j \<leftarrow> [0..<n]]. i \<leftarrow> [0..<m]]"
  have sh: "shape s = (m, n)" using hs pos by (simp add: has_shape_shape)
  have len: "length s = m" using hs by (simp add: has_shape_length)
  have t: "has_shape n m (np_transpose s)" using hs pos by (simp add: has_shape_transpose)
  have f: "has_shape m n ?f" by (rule argmax_axis1_ok(2)[OF hs pos])
  have b: "has_shape n m ?b" by (rule argmax_axis1_ok(2)[OF t pos(2,1)])
  have bt: "has_shape m n (np_transpose ?b)" by (rule argmax_axis0_ok(2)[OF hs pos])
  have eq: "argmax_inter s = Inr (ew2 (*) ?f (np_transpose ?b))"
    using argmax_axis1_ok(1)[OF hs pos] argmax_axis0_ok(1)[OF hs pos] sh
    by (simp add: argmax_inter_def)
  have "ew2 (*) ?f (np_transpose ?b) = ?R"
  proof (rule matrix_eqI[of m n])
    show "has_shape m n (ew2 (*) ?f (np_transpose ?b))" using f bt by (rule has_shape_ew2)
    show "has_shape m n ?R" by (rule has_shapeI) simp_all
    fix i j assume i: "i < m" and j: "j < n"
    have rowi: "length (s ! i) = n" using hs i by (simp add: has_shape_row)
    have a1: "argmax (s ! i) < n" using argmax_less[of "s ! i"] rowi pos by auto
    have colj: "np_transpose s ! j = map (\<lambda>r. r ! j) s" using sh j by (simp add: np_transpose_def)
    have a2: "argmax (map (\<lambda>r. r ! j) s) < m"
      using argmax_less[of "map (\<lambda>r. r ! j) s"] len pos by auto
    have fij: "?f ! i ! j = (if argmax (s ! i) = j then 1 else 0)"
      using i j a1 len by (simp add: one_hot_rows_nth)
    have "length (np_transpose s) = n" using t by (simp add: has_shape_length)
    then have bji: "?b ! j ! i = (if argmax (map (\<lambda>r. r ! j) s) = i then 1 else 0)"
      using i j a2 colj by (simp add: one_hot_rows_nth)
    have btij: "np_transpose ?b ! i ! j = ?b ! j ! i"
      using hs_transpose_nth[OF b j i] .
    show "ew2 (*) ?f (np_transpose ?b) ! i ! j = ?R ! i ! j"
      using i j fij bji btij f bt by (simp add: hs_ew2_nth)
  qed
  then show ?thesis using eq by simp
qed

section \<open>iter_max: results\<close>

text \<open>
  When the global \<open>sim\<close> is bound to a matrix with \<open>min(m, n) \<le> 2\<close>, as it is at both call
  sites, the result is the argmax intersection of that matrix whatever the argument and the
  round budget: the cell \<open>(i, j)\<close> is 1 exactly when \<open>j\<close> is the argmax of row \<open>i\<close> and \<open>i\<close>
  the argmax of column \<open>j\<close>. \<open>argmax\<close> is the first index of a maximal entry
  (\<open>argmax_first_maximum\<close>).
\<close>

lemma iter_max_small_global:
  assumes sh: "shape s = (m, n)" and small: "min m n \<le> 2"
  shows "iter_max \<lparr>sim = Some s\<rparr> sim_matrix K = argmax_inter s \<and>
         (ndarray s \<and> 0 < m \<and> 0 < n \<longrightarrow>
            argmax_inter s =
              Inr [[if argmax (s ! i) = j \<and> argmax (map (\<lambda>r. r ! j) s) = i then 1 else 0.
                    j \<leftarrow> [0..<n]]. i \<leftarrow> [0..<m]]) \<and>
         (m = 1 \<and> n = 1 \<longrightarrow> iter_max \<lparr>sim = Some s\<rparr> sim_matrix K = Inr [[1]])"
proof (intro conjI impI)
  show eq: "iter_max \<lparr>sim = Some s\<rparr> sim_matrix K = argmax_inter s"
    using sh small by (simp add: iter_max_def split: sum.splits)
  show "argmax_inter s =
              Inr [[if argmax (s ! i) = j \<and> argmax (map (\<lambda>r. r ! j) s) = i then 1 else 0.
                    j \<leftarrow> [0..<n]]. i \<leftarrow> [0..<m]]"
    if "ndarray s \<and> 0 < m \<and> 0 < n"
    using that sh by (intro argmax_inter_cells has_shape_of_ndarray) simp_all
  show "iter_max \<lparr>sim = Some s\<rparr> sim_matrix K = Inr [[1]]" if one: "m = 1 \<and> n = 1"
  proof -
    obtain x where "s = [[x]]"
      using one sh by (auto simp: shape_def length_Suc_conv split: if_splits)
    then have "argmax_inter s = Inr [[1]]"
      by (simp add: argmax_inter_def shape_def argmax_axis1_def argmax_axis0_def argmax_def
          one_hot_rows_def eye_def np_transpose_def ew2_def)
    then show ?thesis using eq by simp
  qed
qed

text \<open>
  Claim C6. For a matrix \<open>S\<close> with \<open>min(m, n) \<le> 2\<close> passed to \<open>iter_max\<close> the result is
  claimed to be the round-0 intersection of \<open>S\<close>, \<open>[[1]]\<close> for a 1 by 1 matrix. The early
  return of lines 103 and 104 returns the intersection of the global \<open>sim\<close> instead: passed
  \<open>[[5]]\<close>, whose intersection is \<open>[[1]]\<close>, \<open>iter_max\<close> returns \<open>[[0, 1], [1, 0]]\<close> under a
  2 by 2 global and raises NameError when the global is unbound; passed the 2 by 3 matrix of
  the specification's end-to-end example under the global \<open>[[1]]\<close> it returns \<open>[[1]]\<close>.
\<close>

theorem iter_max_small_ignores_argument:
  "argmax_inter [[5]] = Inr [[1]] \<and>
   iter_max \<lparr>sim = Some [[1/10, 9/10], [8/10, 2/10]]\<rparr> [[5]] 3 = Inr [[0, 1], [1, 0]] \<and>
   iter_max \<lparr>sim = None\<rparr> [[5]] 3 = Inl NameError \<and>
   argmax_inter [[9/10, 1/10, 0], [0, 2/10, 8/10]] = Inr [[1, 0, 0], [0, 0, 1]] \<and>
   iter_max \<lparr>sim = Some [[1]]\<rparr> [[9/10, 1/10, 0], [0, 2/10, 8/10]] 3 = Inr [[1]]"
  by code_simp

lemma iter_max_empty_raises:
  assumes "shape s = (m, n)" "m = 0 \<or> n = 0"
  shows "iter_max \<lparr>sim = Some s\<rparr> sim_matrix K = Inl ValueError"
proof -
  have "snd (shape s) = 0" using assms by (auto simp: shape_def)
  then have "argmax_inter s = Inl ValueError"
    by (simp add: argmax_inter_def argmax_axis1_def split: prod.splits)
  then show ?thesis by (simp add: iter_max_def split: prod.splits)
qed

lemma iter_max_rounds:
  assumes nd: "ndarray s" and sh: "shape s = (m, n)" and pos: "0 < m" "0 < n"
  shows "\<exists>i0 j r. argmax_inter s = Inr i0 \<and> j \<le> nat K \<and>
           iter_max \<lparr>sim = Some s\<rparr> sim_matrix K = Inr r \<and>
           rounds s m n j i0 = Inr r \<and>
           (2 < min m n \<and> j < nat K \<longrightarrow> fixed_point s m n r) \<and>
           (\<forall>i<j. \<forall>b. rounds s m n i i0 = Inr b \<longrightarrow> \<not> fixed_point s m n b)"
proof -
  have hs: "has_shape m n s" using nd sh by (rule has_shape_of_ndarray)
  obtain i0 where i0: "argmax_inter s = Inr i0" "has_shape m n i0"
    using argmax_inter_ok[OF hs pos] by blast
  show ?thesis
  proof (cases "min m n \<le> 2")
    case True
    then have "iter_max \<lparr>sim = Some s\<rparr> sim_matrix K = Inr i0"
      using sh i0 by (simp add: iter_max_def)
    then show ?thesis using i0 True
      by (intro exI[of _ i0] exI[of _ 0]) auto
  next
    case False
    then have im: "iter_max \<lparr>sim = Some s\<rparr> sim_matrix K = iter_loop s m n K i0 (zeros m n) 0"
      using sh i0 by (simp add: iter_max_def)
    show ?thesis
    proof (cases "0 \<le> K")
      case True
      from iter_loop_rounds[OF hs pos i0(2) has_shape_zeros True refl]
      obtain j r where "j \<le> nat (K - 0)" "iter_loop s m n K i0 (zeros m n) 0 = Inr r"
        "rounds s m n j (ew2 (+) i0 (zeros m n)) = Inr r"
        "j < nat (K - 0) \<longrightarrow> fixed_point s m n r"
        "\<forall>i<j. \<forall>b. rounds s m n i (ew2 (+) i0 (zeros m n)) = Inr b \<longrightarrow> \<not> fixed_point s m n b"
        by blast
      then show ?thesis using im i0 ew2_add_zeros[OF i0(2)]
        by (intro exI[of _ i0] exI[of _ j] exI[of _ r]) simp
    next
      case False
      then have "iter_loop s m n K i0 (zeros m n) 0 = Inr i0" by simp
      then show ?thesis using im i0 False
        by (intro exI[of _ i0] exI[of _ 0]) simp
    qed
  qed
qed

text \<open>
  Claim C7. \<open>iter_max\<close> returns for every matrix and every round budget \<open>K\<close>: the loop is
  a total function, its measure being \<open>max_count + 1 - count\<close>. On an empty matrix the
  argmax of line 99 raises ValueError. On any other matrix the value returned is the round-0
  intersection after \<open>j\<close> refinement rounds for some \<open>j \<le> K\<close>, no earlier round having left
  the accumulator unchanged; and when \<open>j < K\<close> on a matrix with \<open>min(m, n) > 2\<close>, the loop
  stopped because a round left the accumulator unchanged.
\<close>

theorem iter_max_bounded_rounds:
  assumes nd: "ndarray s" and sh: "shape s = (m, n)"
  shows "(m = 0 \<or> n = 0 \<longrightarrow> iter_max \<lparr>sim = Some s\<rparr> sim_matrix K = Inl ValueError) \<and>
         (0 < m \<and> 0 < n \<longrightarrow>
            (\<exists>i0 j r. argmax_inter s = Inr i0 \<and> j \<le> nat K \<and>
               iter_max \<lparr>sim = Some s\<rparr> sim_matrix K = Inr r \<and>
               rounds s m n j i0 = Inr r \<and>
               (2 < min m n \<and> j < nat K \<longrightarrow> fixed_point s m n r) \<and>
               (\<forall>i<j. \<forall>b. rounds s m n i i0 = Inr b \<longrightarrow> \<not> fixed_point s m n b)))"
  using iter_max_empty_raises[OF sh] iter_max_rounds[OF nd sh] by blast

theorem iter_max_bounded_rounds_witness:
  "ndarray [[9/10, 1/10, 1/10], [8/10, 3/10, 2/10], [7/10, 2/10, 1/10 :: real]] \<and>
   shape [[9/10, 1/10, 1/10], [8/10, 3/10, 2/10], [7/10, 2/10, 1/10 :: real]] = (3, 3) \<and>
   (\<exists>i0 j r. argmax_inter [[9/10, 1/10, 1/10], [8/10, 3/10, 2/10], [7/10, 2/10, 1/10]] = Inr i0 \<and>
      j \<le> nat 1 \<and>
      iter_max \<lparr>sim = Some [[9/10, 1/10, 1/10], [8/10, 3/10, 2/10], [7/10, 2/10, 1/10]]\<rparr> [] 1 = Inr r \<and>
      rounds [[9/10, 1/10, 1/10], [8/10, 3/10, 2/10], [7/10, 2/10, 1/10]] 3 3 j i0 = Inr r) \<and>
   iter_max \<lparr>sim = Some [[9/10, 1/10, 1/10], [8/10, 3/10, 2/10], [7/10, 2/10, 1/10]]\<rparr> [] 1
     = Inr [[1, 0, 0], [1, 0, 0], [0, 0, 0]] \<and>
   rounds [[9/10, 1/10, 1/10], [8/10, 3/10, 2/10], [7/10, 2/10, 1/10]] 3 3 1
     [[1, 0, 0], [0, 0, 0], [0, 0, 0]] = Inr [[1, 0, 0], [1, 0, 0], [0, 0, 0]]"
proof -
  let ?s = "[[9/10, 1/10, 1/10], [8/10, 3/10, 2/10], [7/10, 2/10, 1/10 :: real]]"
  have sh: "shape ?s = (3, 3)" by (simp add: shape_def)
  have nd: "ndarray ?s" by (simp add: ndarray_def shape_def)
  have v: "iter_max \<lparr>sim = Some ?s\<rparr> [] 1 = Inr [[1, 0, 0], [1, 0, 0], [0, 0, 0]]"
    by code_simp
  have w: "rounds ?s 3 3 1 [[1, 0, 0], [0, 0, 0], [0, 0, 0]] = Inr [[1, 0, 0], [1, 0, 0], [0, 0, 0]]"
    by code_simp
  from iter_max_bounded_rounds[OF nd sh, where sim_matrix = "[]" and K = 1]
  have "\<exists>i0 j r. argmax_inter ?s = Inr i0 \<and> j \<le> nat 1 \<and>
      iter_max \<lparr>sim = Some ?s\<rparr> [] 1 = Inr r \<and> rounds ?s 3 3 j i0 = Inr r"
    by auto
  then show ?thesis using sh nd v w by blast
qed

text \<open>
  Claim C1. \<open>iter_max\<close> is claimed to read only its parameter. It reads the global \<open>sim\<close>
  instead: any two parameters give the same result under the same globals, and with the
  parameter held at one 2 by 2 matrix the result is \<open>[[1]]\<close> when the global is a 1 by 1
  matrix, NameError when the global is unbound, and the intersection of the parameter only
  when the global happens to be the parameter.
\<close>

theorem iter_max_reads_global:
  "iter_max g p K = iter_max g q K \<and>
   iter_max \<lparr>sim = Some [[1]]\<rparr> [[1/10, 9/10], [8/10, 2/10]] 3 = Inr [[1]] \<and>
   iter_max \<lparr>sim = None\<rparr> [[1/10, 9/10], [8/10, 2/10]] 3 = Inl NameError \<and>
   iter_max \<lparr>sim = Some [[1/10, 9/10], [8/10, 2/10]]\<rparr> [[1/10, 9/10], [8/10, 2/10]] 3
     = Inr [[0, 1], [1, 0]]"
proof -
  have "iter_max g p K = iter_max g q K" by (simp add: iter_max_def)
  moreover have
    "iter_max \<lparr>sim = Some [[1]]\<rparr> [[1/10, 9/10], [8/10, 2/10]] 3 = Inr [[1]] \<and>
     iter_max \<lparr>sim = None\<rparr> [[1/10, 9/10], [8/10, 2/10]] 3 = Inl NameError \<and>
     iter_max \<lparr>sim = Some [[1/10, 9/10], [8/10, 2/10]]\<rparr> [[1/10, 9/10], [8/10, 2/10]] 3
       = Inr [[0, 1], [1, 0]]"
    by code_simp
  ultimately show ?thesis by simp
qed

section \<open>iter_max: the masks of a round\<close>

lemma mask_x_nth:
  assumes "has_shape m n a" "i < m" "j < n"
  shows "mask_x n a ! i ! j = 1 - row_satisfied a i"
proof -
  let ?t = "tile_cols (sum1 a) n"
  have t: "has_shape m n ?t"
    using assms(1) by (intro has_shape_tile_cols) (simp add: has_shape_length)
  have c: "has_shape m n (ew1 (clip 0 1) ?t)" using t by (rule has_shape_ew1)
  have "mask_x n a ! i ! j = 1 - ew1 (clip 0 1) ?t ! i ! j"
    unfolding mask_x_def by (rule hs_ew1_nth[OF c assms(2,3)])
  also have "ew1 (clip 0 1) ?t ! i ! j = clip 0 1 (?t ! i ! j)"
    by (rule hs_ew1_nth[OF t assms(2,3)])
  also have "?t ! i ! j = sum_list (a ! i)"
    using assms by (simp add: tile_cols_nth sum1_nth has_shape_length)
  finally show ?thesis by (simp add: row_satisfied_def)
qed

lemma mask_y_nth:
  assumes "has_shape m n a" "i < m" "j < n"
  shows "mask_y m a ! i ! j = 1 - col_satisfied a j"
proof -
  have m: "0 < m" using assms(2) by simp
  let ?t = "tile_rows (sum0 a) m"
  have t: "has_shape m n ?t"
    using assms(1) m by (intro has_shape_tile_rows) (simp add: sum0_length)
  have c: "has_shape m n (ew1 (clip 0 1) ?t)" using t by (rule has_shape_ew1)
  have "mask_y m a ! i ! j = 1 - ew1 (clip 0 1) ?t ! i ! j"
    unfolding mask_y_def by (rule hs_ew1_nth[OF c assms(2,3)])
  also have "ew1 (clip 0 1) ?t ! i ! j = clip 0 1 (?t ! i ! j)"
    by (rule hs_ew1_nth[OF t assms(2,3)])
  also have "?t ! i ! j = sum_list (map (\<lambda>r. r ! j) a)"
    using assms m by (simp add: tile_rows_nth sum0_nth)
  finally show ?thesis by (simp add: col_satisfied_def)
qed

lemma mask_nth:
  assumes "has_shape m n a" "i < m" "j < n"
  shows "mask m n a ! i ! j =
           (if degenerate m n a then 0
            else clip 0 1 (0.9 * (1 - row_satisfied a i) + 0.9 * (1 - col_satisfied a j)))"
proof -
  have m: "0 < m" using assms(2) by simp
  let ?x = "ew1 (\<lambda>v. 0.9 * v) (mask_x n a)" and ?y = "ew1 (\<lambda>v. 0.9 * v) (mask_y m a)"
  have mx: "has_shape m n (mask_x n a)" using assms(1) by (rule has_shape_mask_x)
  have my: "has_shape m n (mask_y m a)" using assms(1) m by (rule has_shape_mask_y)
  have x: "has_shape m n ?x" using mx by (rule has_shape_ew1)
  have y: "has_shape m n ?y" using my by (rule has_shape_ew1)
  have xy: "has_shape m n (ew2 (+) ?x ?y)" using x y by (rule has_shape_ew2)
  have k: "has_shape m n (ew1 (clip 0 1) (ew2 (+) ?x ?y))" using xy by (rule has_shape_ew1)
  have xn: "?x ! i ! j = 0.9 * (1 - row_satisfied a i)"
    by (simp only: hs_ew1_nth[OF mx assms(2,3)] mask_x_nth[OF assms])
  have yn: "?y ! i ! j = 0.9 * (1 - col_satisfied a j)"
    by (simp only: hs_ew1_nth[OF my assms(2,3)] mask_y_nth[OF assms])
  have mk: "ew1 (clip 0 1) (ew2 (+) ?x ?y) ! i ! j =
              clip 0 1 (0.9 * (1 - row_satisfied a i) + 0.9 * (1 - col_satisfied a j))"
    by (simp only: hs_ew1_nth[OF xy assms(2,3)] hs_ew2_nth[OF x y assms(2,3)] xn yn)
  have mk0: "ew1 (\<lambda>v. v * 0) (ew1 (clip 0 1) (ew2 (+) ?x ?y)) ! i ! j = 0"
    using hs_ew1_nth[OF k assms(2,3), of "\<lambda>v. v * 0"] by simp
  have eq: "mask m n a =
      (if degenerate m n a then ew1 (\<lambda>v. v * 0) (ew1 (clip 0 1) (ew2 (+) ?x ?y))
       else ew1 (clip 0 1) (ew2 (+) ?x ?y))"
    by (simp only: mask_def Let_def)
  show ?thesis
  proof (cases "degenerate m n a")
    case True
    then show ?thesis by (simp only: eq mk0 if_True)
  next
    case False
    then show ?thesis by (simp only: eq mk if_False)
  qed
qed

lemma mask_zeros_nth:
  assumes "has_shape m n a" "i < m" "j < n"
  shows "mask_zeros m n a ! i ! j =
           (if degenerate m n a then 0 else 1 - row_satisfied a i * col_satisfied a j)"
proof -
  have m: "0 < m" using assms(2) by simp
  let ?x = "ew1 (\<lambda>v. 1 - v) (mask_x n a)" and ?y = "ew1 (\<lambda>v. 1 - v) (mask_y m a)"
  have mx: "has_shape m n (mask_x n a)" using assms(1) by (rule has_shape_mask_x)
  have my: "has_shape m n (mask_y m a)" using assms(1) m by (rule has_shape_mask_y)
  have x: "has_shape m n ?x" using mx by (rule has_shape_ew1)
  have y: "has_shape m n ?y" using my by (rule has_shape_ew1)
  have xy: "has_shape m n (ew2 (*) ?x ?y)" using x y by (rule has_shape_ew2)
  have k: "has_shape m n (ew1 (\<lambda>v. 1 - v) (ew2 (*) ?x ?y))" using xy by (rule has_shape_ew1)
  have xn: "?x ! i ! j = row_satisfied a i"
    using hs_ew1_nth[OF mx assms(2,3), of "\<lambda>v. 1 - v"] mask_x_nth[OF assms] by simp
  have yn: "?y ! i ! j = col_satisfied a j"
    using hs_ew1_nth[OF my assms(2,3), of "\<lambda>v. 1 - v"] mask_y_nth[OF assms] by simp
  have mz: "ew1 (\<lambda>v. 1 - v) (ew2 (*) ?x ?y) ! i ! j = 1 - row_satisfied a i * col_satisfied a j"
    using hs_ew1_nth[OF xy assms(2,3), of "\<lambda>v. 1 - v"] hs_ew2_nth[OF x y assms(2,3), of "(*)"] xn yn
    by simp
  have mz0: "ew1 (\<lambda>v. v * 0) (ew1 (\<lambda>v. 1 - v) (ew2 (*) ?x ?y)) ! i ! j = 0"
    using hs_ew1_nth[OF k assms(2,3), of "\<lambda>v. v * 0"] by simp
  have eq: "mask_zeros m n a =
      (if degenerate m n a then ew1 (\<lambda>v. v * 0) (ew1 (\<lambda>v. 1 - v) (ew2 (*) ?x ?y))
       else ew1 (\<lambda>v. 1 - v) (ew2 (*) ?x ?y))"
    by (simp only: mask_zeros_def Let_def)
  show ?thesis
  proof (cases "degenerate m n a")
    case True
    then show ?thesis by (simp only: eq mz0 if_True)
  next
    case False
    then show ?thesis by (simp only: eq mz if_False)
  qed
qed

lemma clip_unit: "0 \<le> clip 0 1 v" "clip 0 1 v \<le> 1"
  by (simp_all add: clip_def)

lemma unit_product_one:
  fixes x y :: real
  assumes "0 \<le> x" "x \<le> 1" "0 \<le> y" "y \<le> 1"
  shows "x * y = 1 \<longleftrightarrow> x = 1 \<and> y = 1"
proof
  assume p: "x * y = 1"
  have "x * y \<le> x * 1" using assms by (intro mult_left_mono) simp_all
  then have x1: "x = 1" using p assms by simp
  then show "x = 1 \<and> y = 1" using p by simp
qed simp

lemma sum_list_map_nth: "sum_list (map f xs) = (\<Sum>k<length xs. f (xs ! k))"
proof -
  have "sum_list (map f xs) = (\<Sum>i = 0..<length (map f xs). map f xs ! i)"
    by (rule sum_list_sum_nth)
  also have "\<dots> = (\<Sum>k = 0..<length xs. f (xs ! k))"
    by (rule sum.cong) simp_all
  finally show ?thesis by (simp add: lessThan_atLeast0)
qed

lemma total_mask_x:
  assumes "has_shape m n a"
  shows "total (mask_x n a) = real n * (\<Sum>k<m. 1 - row_satisfied a k)"
proof -
  have "mask_x n a = map (\<lambda>r. replicate n (1 - clip 0 1 (sum_list r))) a"
    by (simp add: mask_x_def ew1_def tile_cols_def sum1_def)
  then have "total (mask_x n a) = sum_list (map (\<lambda>r. real n * (1 - clip 0 1 (sum_list r))) a)"
    by (simp add: total_def comp_def sum_list_replicate)
  also have "\<dots> = (\<Sum>k<m. real n * (1 - row_satisfied a k))"
    using assms by (simp add: sum_list_map_nth has_shape_length row_satisfied_def)
  finally show ?thesis by (simp add: sum_distrib_left)
qed

lemma total_mask_y:
  assumes "has_shape m n a" "0 < m"
  shows "total (mask_y m a) = real m * (\<Sum>k<n. 1 - col_satisfied a k)"
proof -
  have sh: "shape a = (m, n)" using assms by (rule has_shape_shape)
  have s0: "sum0 a = map (\<lambda>j. sum_list (map (\<lambda>r. r ! j) a)) [0..<n]"
    by (simp add: sum0_def np_transpose_def sh comp_def)
  have "mask_y m a = replicate m (map (\<lambda>c. 1 - clip 0 1 c) (sum0 a))"
    by (simp add: mask_y_def ew1_def tile_rows_def)
  then have "total (mask_y m a) = real m * sum_list (map (\<lambda>c. 1 - clip 0 1 c) (sum0 a))"
    by (simp add: total_def sum_list_replicate)
  also have "sum_list (map (\<lambda>c. 1 - clip 0 1 c) (sum0 a)) = (\<Sum>k<n. 1 - col_satisfied a k)"
    by (simp add: s0 comp_def interv_sum_list_conv_sum_set_nat lessThan_atLeast0
        col_satisfied_def)
  finally show ?thesis .
qed

lemma degenerate_mass:
  assumes "has_shape m n a" "0 < m"
  shows "degenerate m n a =
           (real n * (\<Sum>k<m. 1 - row_satisfied a k) < 1 \<or>
            real m * (\<Sum>k<n. 1 - col_satisfied a k) < 1)"
  by (simp only: degenerate_def total_mask_x[OF assms(1)] total_mask_y[OF assms])

lemma sum_list_binary:
  "list_all (\<lambda>v. v = 0 \<or> v = (1::real)) xs \<Longrightarrow> sum_list xs = 0 \<or> 1 \<le> sum_list xs"
  by (induction xs) auto

lemma clip_binary: "v = 0 \<or> 1 \<le> v \<Longrightarrow> clip 0 1 v = 0 \<or> clip 0 1 v = 1"
  by (auto simp: clip_def)

lemma binary_cell:
  "binary a \<Longrightarrow> i < length a \<Longrightarrow> j < length (a ! i) \<Longrightarrow> a ! i ! j = 0 \<or> a ! i ! j = 1"
  by (simp add: binary_def list_all_length)

lemma binaryI:
  assumes "has_shape m n a" "\<And>i j. i < m \<Longrightarrow> j < n \<Longrightarrow> a ! i ! j = 0 \<or> a ! i ! j = 1"
  shows "binary a"
  using assms by (simp add: binary_def list_all_length has_shape_length has_shape_row)

lemma row_satisfied_binary:
  assumes "binary a" "k < length a"
  shows "row_satisfied a k = 0 \<or> row_satisfied a k = 1"
proof -
  have "list_all (\<lambda>v. v = 0 \<or> v = 1) (a ! k)"
    using assms by (simp add: binary_def list_all_length)
  then show ?thesis unfolding row_satisfied_def by (intro clip_binary sum_list_binary)
qed

lemma col_satisfied_binary:
  assumes "binary a" "has_shape m n a" "k < n"
  shows "col_satisfied a k = 0 \<or> col_satisfied a k = 1"
proof -
  have "list_all (\<lambda>v. v = 0 \<or> v = 1) (map (\<lambda>r. r ! k) a)"
    using assms binary_cell[OF assms(1)]
    by (simp add: list_all_length has_shape_length has_shape_row)
  then show ?thesis unfolding col_satisfied_def by (intro clip_binary sum_list_binary)
qed

lemma unit_sum_small:
  fixes t :: "nat \<Rightarrow> real"
  assumes "\<And>k. k < m \<Longrightarrow> t k = 0 \<or> t k = 1" "1 \<le> c"
  shows "(c * (\<Sum>k<m. 1 - t k) < 1) = (\<forall>k<m. t k = 1)"
proof
  assume small: "c * (\<Sum>k<m. 1 - t k) < 1"
  show "\<forall>k<m. t k = 1"
  proof (rule ccontr)
    assume "\<not> (\<forall>k<m. t k = 1)"
    then obtain k where k: "k < m" "t k = 0" using assms(1) by auto
    have nn: "\<And>i. i \<in> {..<m} \<Longrightarrow> 0 \<le> 1 - t i" using assms(1) by fastforce
    have "1 - t k \<le> (\<Sum>i<m. 1 - t i)"
      using k(1) nn by (intro member_le_sum) simp_all
    then have "1 \<le> (\<Sum>i<m. 1 - t i)" using k(2) by simp
    then have "1 * 1 \<le> c * (\<Sum>i<m. 1 - t i)" using assms(2) by (intro mult_mono) simp_all
    then show False using small by simp
  qed
next
  assume "\<forall>k<m. t k = 1"
  then show "c * (\<Sum>k<m. 1 - t k) < 1" by simp
qed

lemma degenerate_binary:
  assumes hs: "has_shape m n a" and pos: "0 < m" "0 < n" and b: "binary a"
  shows "degenerate m n a =
           ((\<forall>k<m. row_satisfied a k = 1) \<or> (\<forall>k<n. col_satisfied a k = 1))"
proof -
  have r: "(real n * (\<Sum>k<m. 1 - row_satisfied a k) < 1) = (\<forall>k<m. row_satisfied a k = 1)"
    using pos hs by (intro unit_sum_small row_satisfied_binary[OF b]) (simp_all add: has_shape_length)
  have c: "(real m * (\<Sum>k<n. 1 - col_satisfied a k) < 1) = (\<forall>k<n. col_satisfied a k = 1)"
    using pos by (intro unit_sum_small col_satisfied_binary[OF b hs]) simp_all
  show ?thesis by (simp only: degenerate_mass[OF hs pos(1)] r c)
qed

lemma nth_le_sum_list:
  fixes xs :: "real list"
  shows "(\<And>x. x \<in> set xs \<Longrightarrow> 0 \<le> x) \<Longrightarrow> k < length xs \<Longrightarrow> xs ! k \<le> sum_list xs"
proof (induction xs arbitrary: k)
  case Nil
  then show ?case by simp
next
  case (Cons x xs)
  have nn: "0 \<le> sum_list xs" using Cons.prems(1) by (intro sum_list_nonneg) simp
  show ?case
  proof (cases k)
    case 0
    then show ?thesis using nn by simp
  next
    case (Suc k')
    then have "xs ! k' \<le> sum_list xs" using Cons by simp
    moreover have "0 \<le> x" using Cons.prems(1) by simp
    ultimately show ?thesis using Suc by simp
  qed
qed

lemma argmax_row_less: "length xs = n \<Longrightarrow> 0 < n \<Longrightarrow> argmax xs < n"
  using argmax_less[of xs] by auto

lemma satisfied_of_one:
  assumes b: "binary a" and hs: "has_shape m n a" and i: "i < m" and j: "j < n"
    and one: "a ! i ! j = 1"
  shows "row_satisfied a i = 1" and "col_satisfied a j = 1"
proof -
  have len: "length a = m" using hs by (rule has_shape_length)
  have cell: "a ! p ! q = 0 \<or> a ! p ! q = 1" if "p < m" "q < n" for p q
    using binary_cell[OF b] that hs by (simp add: has_shape_length has_shape_row)
  have "a ! i ! j \<le> sum_list (a ! i)"
  proof (rule nth_le_sum_list)
    fix x assume "x \<in> set (a ! i)"
    then obtain q where "q < length (a ! i)" "x = a ! i ! q" by (auto simp: in_set_conv_nth)
    then show "0 \<le> x" using cell[OF i, of q] has_shape_row[OF hs i] by auto
  next
    show "j < length (a ! i)" using has_shape_row[OF hs i] j by simp
  qed
  then show "row_satisfied a i = 1" using one by (simp add: row_satisfied_def clip_def)
  have "map (\<lambda>r. r ! j) a ! i \<le> sum_list (map (\<lambda>r. r ! j) a)"
  proof (rule nth_le_sum_list)
    fix x assume "x \<in> set (map (\<lambda>r. r ! j) a)"
    then obtain p where "p < length a" "x = a ! p ! j" by (auto simp: in_set_conv_nth)
    then show "0 \<le> x" using cell[of p j] j len by auto
  next
    show "i < length (map (\<lambda>r. r ! j) a)" using i len by simp
  qed
  then show "col_satisfied a j = 1" using one i len by (simp add: col_satisfied_def clip_def)
qed

lemma new_matches_cells:
  assumes s: "has_shape m n s" and a: "has_shape m n a" and pos: "0 < m" "0 < n"
  shows "\<exists>d. new_matches s m n a = Inr d \<and> has_shape m n d \<and>
           (\<forall>i<m. \<forall>j<n. \<exists>x y. (x = 0 \<or> x = 1) \<and> (y = 0 \<or> y = 1) \<and>
              d ! i ! j = (x * mask_zeros m n a ! i ! j) * (y * mask_zeros m n a ! i ! j))"
proof -
  let ?ns = "new_sim s m n a" and ?mz = "mask_zeros m n a"
  let ?f = "one_hot_rows n (map argmax ?ns)"
  let ?b = "one_hot_rows m (map argmax (np_transpose ?ns))"
  have ns: "has_shape m n ?ns" using s a pos(1) by (rule has_shape_new_sim)
  have mz: "has_shape m n ?mz" using a pos(1) by (rule has_shape_mask_zeros)
  have t: "has_shape n m (np_transpose ?ns)" using ns pos(1) by (rule has_shape_transpose)
  have f: "has_shape m n ?f" by (rule argmax_axis1_ok(2)[OF ns pos])
  have b: "has_shape n m ?b" by (rule argmax_axis1_ok(2)[OF t pos(2,1)])
  have bt: "has_shape m n (np_transpose ?b)" by (rule argmax_axis0_ok(2)[OF ns pos])
  have fw: "has_shape m n (ew2 (*) ?f ?mz)" using f mz by (rule has_shape_ew2)
  have bc: "has_shape m n (ew2 (*) (np_transpose ?b) ?mz)" using bt mz by (rule has_shape_ew2)
  have eq: "new_matches s m n a = Inr (ew2 (*) (ew2 (*) ?f ?mz) (ew2 (*) (np_transpose ?b) ?mz))"
    using argmax_axis1_ok(1)[OF ns pos] argmax_axis0_ok(1)[OF ns pos]
    by (simp add: new_matches_def)
  have cells: "\<exists>x y. (x = 0 \<or> x = 1) \<and> (y = 0 \<or> y = 1) \<and>
      ew2 (*) (ew2 (*) ?f ?mz) (ew2 (*) (np_transpose ?b) ?mz) ! i ! j
        = (x * ?mz ! i ! j) * (y * ?mz ! i ! j)"
    if i: "i < m" and j: "j < n" for i j
  proof -
    have lenns: "length ?ns = m" using ns by (rule has_shape_length)
    have lent: "length (np_transpose ?ns) = n" using t by (rule has_shape_length)
    have a1: "argmax (?ns ! i) < n"
      using argmax_row_less[OF has_shape_row[OF ns i] pos(2)] .
    have a2: "argmax (np_transpose ?ns ! j) < m"
      using argmax_row_less[OF has_shape_row[OF t j] pos(1)] .
    have fij: "?f ! i ! j = (if argmax (?ns ! i) = j then 1 else 0)"
      using i j a1 lenns by (simp add: one_hot_rows_nth)
    have bji: "?b ! j ! i = (if argmax (np_transpose ?ns ! j) = i then 1 else 0)"
      using i j a2 lent by (simp add: one_hot_rows_nth)
    have btij: "np_transpose ?b ! i ! j = ?b ! j ! i" by (rule hs_transpose_nth[OF b j i])
    have "ew2 (*) (ew2 (*) ?f ?mz) (ew2 (*) (np_transpose ?b) ?mz) ! i ! j
            = (?f ! i ! j * ?mz ! i ! j) * (np_transpose ?b ! i ! j * ?mz ! i ! j)"
      by (simp only: hs_ew2_nth[OF fw bc i j] hs_ew2_nth[OF f mz i j] hs_ew2_nth[OF bt mz i j])
    then show ?thesis using fij bji btij
      by (intro exI[of _ "?f ! i ! j"] exI[of _ "?b ! j ! i"]) simp
  qed
  show ?thesis using eq fw bc cells by (simp add: has_shape_ew2)
qed

lemma binary_step:
  assumes s: "has_shape m n s" and a: "has_shape m n a" and pos: "0 < m" "0 < n"
    and b: "binary a" and d: "new_matches s m n a = Inr d"
  shows "has_shape m n (ew2 (+) a d) \<and> binary (ew2 (+) a d)"
proof -
  from new_matches_cells[OF s a pos] d
  have hd: "has_shape m n d"
    and cells: "\<forall>i<m. \<forall>j<n. \<exists>x y. (x = 0 \<or> x = 1) \<and> (y = 0 \<or> y = 1) \<and>
              d ! i ! j = (x * mask_zeros m n a ! i ! j) * (y * mask_zeros m n a ! i ! j)"
    by simp_all
  have hs: "has_shape m n (ew2 (+) a d)" using a hd by (rule has_shape_ew2)
  have "binary (ew2 (+) a d)"
  proof (rule binaryI[OF hs])
    fix i j assume i: "i < m" and j: "j < n"
    have len: "length a = m" using a by (rule has_shape_length)
    have aij: "a ! i ! j = 0 \<or> a ! i ! j = 1"
      using binary_cell[OF b] i j a by (simp add: has_shape_length has_shape_row)
    have rs: "row_satisfied a i = 0 \<or> row_satisfied a i = 1"
      using row_satisfied_binary[OF b] i len by simp
    have cs: "col_satisfied a j = 0 \<or> col_satisfied a j = 1"
      using col_satisfied_binary[OF b a j] .
    have mz: "mask_zeros m n a ! i ! j =
                (if degenerate m n a then 0 else 1 - row_satisfied a i * col_satisfied a j)"
      by (rule mask_zeros_nth[OF a i j])
    obtain x y where xy: "x = 0 \<or> x = 1" "y = 0 \<or> y = 1"
      "d ! i ! j = (x * mask_zeros m n a ! i ! j) * (y * mask_zeros m n a ! i ! j)"
      using cells i j by blast
    have sum: "ew2 (+) a d ! i ! j = a ! i ! j + d ! i ! j" by (rule hs_ew2_nth[OF a hd i j])
    show "ew2 (+) a d ! i ! j = 0 \<or> ew2 (+) a d ! i ! j = 1"
    proof (cases "a ! i ! j = 1")
      case True
      have "row_satisfied a i = 1" "col_satisfied a j = 1"
        using satisfied_of_one[OF b a i j True] by simp_all
      then have "mask_zeros m n a ! i ! j = 0" using mz by simp
      then show ?thesis using sum xy(3) True by simp
    next
      case False
      then have "a ! i ! j = 0" using aij by simp
      moreover have "d ! i ! j = 0 \<or> d ! i ! j = 1"
        using xy rs cs mz by (auto split: if_splits)
      ultimately show ?thesis using sum by auto
    qed
  qed
  then show ?thesis using hs by simp
qed

lemma rounds_binary:
  assumes s: "has_shape m n s" and pos: "0 < m" "0 < n"
  shows "has_shape m n a0 \<Longrightarrow> binary a0 \<Longrightarrow> rounds s m n r a0 = Inr a \<Longrightarrow>
         has_shape m n a \<and> binary a"
proof (induction r arbitrary: a0)
  case 0
  then show ?case by simp
next
  case (Suc r)
  obtain d where d: "new_matches s m n a0 = Inr d"
    using new_matches_ok[OF s Suc.prems(1) pos] by blast
  have st: "has_shape m n (ew2 (+) a0 d) \<and> binary (ew2 (+) a0 d)"
    by (rule binary_step[OF s Suc.prems(1) pos Suc.prems(2) d])
  have "rounds s m n r (ew2 (+) a0 d) = Inr a" using Suc.prems(3) d by simp
  then show ?case using Suc.IH st by blast
qed

lemma argmax_inter_binary:
  assumes s: "has_shape m n s" and pos: "0 < m" "0 < n" and i0: "argmax_inter s = Inr i0"
  shows "has_shape m n i0 \<and> binary i0"
proof -
  have hs: "has_shape m n i0" using argmax_inter_ok[OF s pos] i0 by simp
  have "i0 = [[if argmax (s ! i) = j \<and> argmax (map (\<lambda>r. r ! j) s) = i then 1 else 0.
                 j \<leftarrow> [0..<n]]. i \<leftarrow> [0..<m]]"
    using argmax_inter_cells[OF s pos] i0 by simp
  then have "binary i0" by (intro binaryI[OF hs]) auto
  then show ?thesis using hs by simp
qed

lemma accumulator_binary:
  assumes "ndarray s" "shape s = (m, n)" "0 < m" "0 < n"
    and "argmax_inter s = Inr i0" "rounds s m n r i0 = Inr a"
  shows "has_shape m n a \<and> binary a"
proof -
  have s: "has_shape m n s" using assms(1,2) by (rule has_shape_of_ndarray)
  have "has_shape m n i0 \<and> binary i0" by (rule argmax_inter_binary[OF s assms(3,4,5)])
  then show ?thesis using rounds_binary[OF s assms(3,4) _ _ assms(6)] by blast
qed

text \<open>
  Claim C3, as the code has it. In a refinement round with accumulator \<open>a\<close>, write
  \<open>rowSatisfied\<close> and \<open>colSatisfied\<close> for the clipped row and column sums. The degenerate
  guard fires when \<open>n \<Sum> (1 - rowSatisfied)\<close> or \<open>m \<Sum> (1 - colSatisfied)\<close> is below 1; the
  accumulators of \<open>iter_max\<close> have entries 0 and 1 only, and for them the guard fires
  exactly when every row is satisfied or every column is. Unless the guard fires, the mask is
  \<open>clip(0.9 (1 - rowSatisfied) + 0.9 (1 - colSatisfied), 0, 1)\<close>, the damped similarity is
  the similarity multiplied by that mask itself, and the hard zero-mask is
  \<open>1 - rowSatisfied colSatisfied\<close>, which is 0 exactly where the row and the column are
  both fully satisfied. When the guard fires both masks are 0.
\<close>

theorem round_masks:
  assumes "ndarray s" "shape s = (m, n)" "ndarray a" "shape a = (m, n)" "i < m" "j < n"
  shows "degenerate m n a =
           (real n * (\<Sum>k<m. 1 - row_satisfied a k) < 1 \<or>
            real m * (\<Sum>k<n. 1 - col_satisfied a k) < 1) \<and>
         (binary a \<longrightarrow>
            degenerate m n a =
              ((\<forall>k<m. row_satisfied a k = 1) \<or> (\<forall>k<n. col_satisfied a k = 1))) \<and>
         ((\<exists>i0 r. argmax_inter s = Inr i0 \<and> rounds s m n r i0 = Inr a) \<longrightarrow> binary a) \<and>
         mask m n a ! i ! j =
           (if degenerate m n a then 0
            else clip 0 1 (0.9 * (1 - row_satisfied a i) + 0.9 * (1 - col_satisfied a j))) \<and>
         new_sim s m n a ! i ! j = s ! i ! j * mask m n a ! i ! j \<and>
         mask_zeros m n a ! i ! j =
           (if degenerate m n a then 0 else 1 - row_satisfied a i * col_satisfied a j) \<and>
         (if degenerate m n a then mask_zeros m n a ! i ! j = 0
          else (mask_zeros m n a ! i ! j = 0) = (row_satisfied a i = 1 \<and> col_satisfied a j = 1))"
proof -
  have hs: "has_shape m n s" using assms(1,2) by (rule has_shape_of_ndarray)
  have ha: "has_shape m n a" using assms(3,4) by (rule has_shape_of_ndarray)
  have m: "0 < m" and n: "0 < n" using assms(5,6) by simp_all
  note dm = degenerate_mass[OF ha m]
  have db: "degenerate m n a =
              ((\<forall>k<m. row_satisfied a k = 1) \<or> (\<forall>k<n. col_satisfied a k = 1))"
    if "binary a" using degenerate_binary[OF ha m n that] .
  have reach: "binary a" if "\<exists>i0 r. argmax_inter s = Inr i0 \<and> rounds s m n r i0 = Inr a"
    using that accumulator_binary[OF assms(1,2) m n] by blast
  note mk = mask_nth[OF ha assms(5,6)]
  note mz = mask_zeros_nth[OF ha assms(5,6)]
  have ns: "new_sim s m n a ! i ! j = s ! i ! j * mask m n a ! i ! j"
    using hs ha m assms(5,6) by (simp add: new_sim_def hs_ew2_nth has_shape_mask)
  have "(1 - row_satisfied a i * col_satisfied a j = 0) =
        (row_satisfied a i = 1 \<and> col_satisfied a j = 1)"
    using unit_product_one[of "row_satisfied a i" "col_satisfied a j"]
    by (simp add: row_satisfied_def col_satisfied_def clip_unit)
  then have bl: "(if degenerate m n a then mask_zeros m n a ! i ! j = 0
          else (mask_zeros m n a ! i ! j = 0) = (row_satisfied a i = 1 \<and> col_satisfied a j = 1))"
    using mz by simp
  show ?thesis using dm db reach mk ns mz bl by blast
qed

theorem round_masks_witness:
  "ndarray [[9/10, 1/10, 1/10], [8/10, 3/10, 2/10], [7/10, 2/10, 1/10 :: real]] \<and>
   shape [[9/10, 1/10, 1/10], [8/10, 3/10, 2/10], [7/10, 2/10, 1/10 :: real]] = (3, 3) \<and>
   ndarray [[1, 0, 0], [0, 0, 0], [0, 0, 0 :: real]] \<and>
   shape [[1, 0, 0], [0, 0, 0], [0, 0, 0 :: real]] = (3, 3) \<and>
   binary [[1, 0, 0], [0, 0, 0], [0, 0, 0]] \<and>
   \<not> degenerate 3 3 [[1, 0, 0], [0, 0, 0], [0, 0, 0]] \<and>
   mask 3 3 [[1, 0, 0], [0, 0, 0], [0, 0, 0]] ! 1 ! 0 = 9/10 \<and>
   new_sim [[9/10, 1/10, 1/10], [8/10, 3/10, 2/10], [7/10, 2/10, 1/10]] 3 3
     [[1, 0, 0], [0, 0, 0], [0, 0, 0]] ! 1 ! 0 = 72/100 \<and>
   mask_zeros 3 3 [[1, 0, 0], [0, 0, 0], [0, 0, 0]] ! 0 ! 0 = 0 \<and>
   ndarray [[1, 0, 0], [1, 0, 0], [1, 0, 0 :: real]] \<and>
   shape [[1, 0, 0], [1, 0, 0], [1, 0, 0 :: real]] = (3, 3) \<and>
   binary [[1, 0, 0], [1, 0, 0], [1, 0, 0]] \<and>
   degenerate 3 3 [[1, 0, 0], [1, 0, 0], [1, 0, 0]] \<and>
   mask 3 3 [[1, 0, 0], [1, 0, 0], [1, 0, 0]] ! 1 ! 1 = 0 \<and>
   new_sim [[9/10, 1/10, 1/10], [8/10, 3/10, 2/10], [7/10, 2/10, 1/10]] 3 3
     [[1, 0, 0], [1, 0, 0], [1, 0, 0]] ! 1 ! 1 = 0 \<and>
   mask_zeros 3 3 [[1, 0, 0], [1, 0, 0], [1, 0, 0]] ! 1 ! 1 = 0"
proof -
  let ?s = "[[9/10, 1/10, 1/10], [8/10, 3/10, 2/10], [7/10, 2/10, 1/10 :: real]]"
  let ?a = "[[1, 0, 0], [0, 0, 0], [0, 0, 0 :: real]]"
  let ?c = "[[1, 0, 0], [1, 0, 0], [1, 0, 0 :: real]]"
  have s: "ndarray ?s" "shape ?s = (3, 3)" by (simp_all add: ndarray_def shape_def)
  have a: "ndarray ?a" "shape ?a = (3, 3)" by (simp_all add: ndarray_def shape_def)
  have c: "ndarray ?c" "shape ?c = (3, 3)" by (simp_all add: ndarray_def shape_def)
  have ba: "binary ?a" and bc: "binary ?c" by (simp_all add: binary_def)
  have ra: "row_satisfied ?a 0 = 1" "row_satisfied ?a 1 = 0" "col_satisfied ?a 0 = 1"
    "col_satisfied ?a 1 = 0"
    by (simp_all add: row_satisfied_def col_satisfied_def clip_def)
  have rc: "\<forall>k<3. row_satisfied ?c k = 1"
    by (simp add: row_satisfied_def clip_def numeral_3_eq_3 less_Suc_eq)
  have "(1::nat) < 3" "(0::nat) < 3" by simp_all
  note t10 = round_masks[OF s a \<open>1 < 3\<close> \<open>0 < 3\<close>]
  note t00 = round_masks[OF s a \<open>0 < 3\<close> \<open>0 < 3\<close>]
  note u11 = round_masks[OF s c \<open>1 < 3\<close> \<open>1 < 3\<close>]
  have da: "\<not> degenerate 3 3 ?a"
  proof -
    have "degenerate 3 3 ?a =
            ((\<forall>k<3. row_satisfied ?a k = 1) \<or> (\<forall>k<3. col_satisfied ?a k = 1))"
      using t10 ba by blast
    moreover have "\<not> (\<forall>k<3. row_satisfied ?a k = 1)" using ra(2) by (intro notI) force
    moreover have "\<not> (\<forall>k<3. col_satisfied ?a k = 1)" using ra(4) by (intro notI) force
    ultimately show ?thesis by simp
  qed
  have dc: "degenerate 3 3 ?c" using u11 bc rc by blast
  have mk10: "mask 3 3 ?a ! 1 ! 0 =
      (if degenerate 3 3 ?a then 0
       else clip 0 1 (0.9 * (1 - row_satisfied ?a 1) + 0.9 * (1 - col_satisfied ?a 0)))"
    using t10 by blast
  have ns10: "new_sim ?s 3 3 ?a ! 1 ! 0 = ?s ! 1 ! 0 * mask 3 3 ?a ! 1 ! 0"
    using t10 by blast
  have mz00: "mask_zeros 3 3 ?a ! 0 ! 0 =
      (if degenerate 3 3 ?a then 0 else 1 - row_satisfied ?a 0 * col_satisfied ?a 0)"
    using t00 by blast
  have mk11: "mask 3 3 ?c ! 1 ! 1 =
      (if degenerate 3 3 ?c then 0
       else clip 0 1 (0.9 * (1 - row_satisfied ?c 1) + 0.9 * (1 - col_satisfied ?c 1)))"
    using u11 by blast
  have ns11: "new_sim ?s 3 3 ?c ! 1 ! 1 = ?s ! 1 ! 1 * mask 3 3 ?c ! 1 ! 1"
    using u11 by blast
  have mz11: "mask_zeros 3 3 ?c ! 1 ! 1 =
      (if degenerate 3 3 ?c then 0 else 1 - row_satisfied ?c 1 * col_satisfied ?c 1)"
    using u11 by blast
  have m1: "mask 3 3 ?a ! 1 ! 0 = 9/10" using mk10 da ra by (simp add: clip_def)
  have n1: "new_sim ?s 3 3 ?a ! 1 ! 0 = 72/100" using ns10 m1 by simp
  have z1: "mask_zeros 3 3 ?a ! 0 ! 0 = 0" using mz00 da ra by simp
  have m2: "mask 3 3 ?c ! 1 ! 1 = 0" using mk11 dc by simp
  have n2: "new_sim ?s 3 3 ?c ! 1 ! 1 = 0" using ns11 m2 by simp
  have z2: "mask_zeros 3 3 ?c ! 1 ! 1 = 0" using mz11 dc by simp
  show ?thesis using s a c ba bc da dc m1 n1 z1 m2 n2 z2 by simp
qed

text \<open>
  The wording of claim C3 fails in the first refinement round of a 3 by 3 matrix whose
  round-0 intersection is the single cell \<open>(0, 0)\<close>: the mask, the damped similarity and
  the zero-mask of the code all differ from \<open>clip(0.9 rowSatisfied + 0.9 colSatisfied, 0, 1)\<close>,
  from the similarity times one minus that, and from
  \<open>1 - (1 - rowSatisfied)(1 - colSatisfied)\<close>.
\<close>

theorem round_masks_counterexample:
  "argmax_inter [[9/10, 1/10, 1/10], [8/10, 3/10, 2/10], [7/10, 2/10, 1/10]]
     = Inr [[1, 0, 0], [0, 0, 0], [0, 0, 0]] \<and>
   mask 3 3 [[1, 0, 0], [0, 0, 0], [0, 0, 0]] \<noteq> spec_damping_mask 3 3 [[1, 0, 0], [0, 0, 0], [0, 0, 0]] \<and>
   new_sim [[9/10, 1/10, 1/10], [8/10, 3/10, 2/10], [7/10, 2/10, 1/10]] 3 3
       [[1, 0, 0], [0, 0, 0], [0, 0, 0]]
     \<noteq> spec_damped_sim [[9/10, 1/10, 1/10], [8/10, 3/10, 2/10], [7/10, 2/10, 1/10]] 3 3
       [[1, 0, 0], [0, 0, 0], [0, 0, 0]] \<and>
   mask_zeros 3 3 [[1, 0, 0], [0, 0, 0], [0, 0, 0]]
     \<noteq> spec_zero_mask 3 3 [[1, 0, 0], [0, 0, 0], [0, 0, 0]]"
  by code_simp

section \<open>Entropy scoring and mask construction: results\<close>

lemma upt3: "[0..<3] = [0, 1, 2]"
  by (simp add: upt_rec)

lemma entropy_x_length: "shape s = (m, n) \<Longrightarrow> length (entropy_x s) = m"
  by (simp add: entropy_x_def)

lemma entropy_y_length: "shape s = (m, n) \<Longrightarrow> length (entropy_y s) = n"
  by (simp add: entropy_y_def)




lemma has_shape_min_entropy: "shape s = (m, n) \<Longrightarrow> has_shape m n (min_entropy s)"
  by (simp add: min_entropy_def has_shape_ew2 has_shape_tile_cols has_shape_tile_rows
      entropy_x_length entropy_y_length)

lemma min_entropy_nth:
  assumes sh: "shape s = (m, n)" and i: "i < m" and j: "j < n"
  shows "min_entropy s ! i ! j = fmin (entropy_x s ! i) (entropy_y s ! j)"
proof -
  let ?x = "tile_cols (entropy_x s) n" and ?y = "tile_rows (entropy_y s) m"
  have x: "has_shape m n ?x" using sh by (simp add: has_shape_tile_cols entropy_x_length)
  have y: "has_shape m n ?y" using sh by (simp add: has_shape_tile_rows entropy_y_length)
  have "min_entropy s ! i ! j = fmin (?x ! i ! j) (?y ! i ! j)"
    using sh hs_ew2_nth[OF x y i j, of fmin] by (simp add: min_entropy_def)
  then show ?thesis
    using sh i j by (simp add: tile_cols_nth tile_rows_nth entropy_x_length)
qed

lemma ones_nth: "i < m \<Longrightarrow> j < n \<Longrightarrow> ones m n ! i ! j = 1"
  by (simp add: ones_def)

lemma fmin_Finite: "fmin (Finite x) (Finite y) = Finite (min x y)"
  by (simp add: min_def)

lemma fgt_fmin_NegInf: "\<not> fgt (fmin NegInf w) r" "\<not> fgt (fmin v NegInf) r"
  by (cases w; cases r; simp) (cases v; cases r; simp)

text \<open>
  On a non-negative vector with a positive sum the entropy is the finite number
  \<open>- \<Sum> p ln p\<close> over the positive quotients.
\<close>

lemma fsum_Finite: "fsum (map (\<lambda>x. Finite (f x)) xs) = Finite (sum_list (map f xs))"
  by (induction xs) (simp_all add: fsum_def)

lemma entropy_finite:
  assumes "\<forall>x\<in>set pk. 0 \<le> x" "0 < sum_list pk"
  shows "entropy pk =
           Finite (\<Sum>p\<leftarrow>pk. if 0 < p then - (p / sum_list pk) * ln (p / sum_list pk) else 0)"
proof -
  let ?s = "sum_list pk"
  have "entr (fdiv p ?s) = Finite (if 0 < p then - (p / ?s) * ln (p / ?s) else 0)"
    if "p \<in> set pk" for p
  proof -
    have "0 \<le> p" using that assms(1) by simp
    then show ?thesis using assms(2) by (auto simp: fdiv_def)
  qed
  then have eq: "map (\<lambda>p. entr (fdiv p ?s)) pk =
             map (\<lambda>p. Finite (if 0 < p then - (p / ?s) * ln (p / ?s) else 0)) pk"
    by (intro map_cong refl)
  show ?thesis
    by (simp only: entropy_def Let_def eq fsum_Finite)
qed

lemma ex1: "entropy_x [[1, 1, -1], [1, 1, 1], [1, 1, 1]] = [NegInf, Finite 1, Finite 1]"
  by (simp add: entropy_x_def shape_def normalize_def normalize_row_def entropy_def fdiv_def
      fsum_def upt3 ln_div)

lemma ey1: "entropy_y [[1, 1, -1], [1, 1, 1], [1, 1, 1]] = [Finite 1, Finite 1, NegInf]"
  by (simp add: entropy_y_def shape_def normalize_def normalize_row_def entropy_def fdiv_def
      fsum_def upt3 np_transpose_def ln_div)



text \<open>
  Claim C8. The mask of \<open>apply_percentile_null_aligns\<close> is the all-ones matrix of the
  input's shape when \<open>min(m, n) \<le> 2\<close>, for any threshold. Otherwise it has the input's
  shape, and its entry at \<open>(i, j)\<close> is 0 when \<open>min(rowEntropy[i], colEntropy[j])\<close> exceeds
  the threshold and 1 otherwise, \<open>entropy_x\<close> and \<open>entropy_y\<close> being the vectors that
  entropy scoring computes. The minimum and the comparison are those of floats: an entropy
  that is \<open>-inf\<close> or NaN never exceeds the threshold, and the cell is 1.
\<close>

theorem apply_percentile_null_aligns_mask:
  assumes sh: "shape s = (m, n)"
  shows "(min m n \<le> 2 \<longrightarrow>
            apply_percentile_null_aligns s ratio = ones m n \<and>
            (\<forall>i<m. \<forall>j<n. apply_percentile_null_aligns s ratio ! i ! j = 1)) \<and>
         (2 < min m n \<longrightarrow>
            shape (apply_percentile_null_aligns s ratio) = (m, n) \<and>
            (\<forall>i<m. \<forall>j<n. apply_percentile_null_aligns s ratio ! i ! j =
               (if fgt (fmin (entropy_x s ! i) (entropy_y s ! j)) ratio then 0 else 1)) \<and>
            (\<forall>i<m. \<forall>j<n. \<forall>x y t.
               entropy_x s ! i = Finite x \<and> entropy_y s ! j = Finite y \<and> ratio = Finite t \<longrightarrow>
               apply_percentile_null_aligns s ratio ! i ! j = (if min x y > t then 0 else 1)))"
proof -
  have small: "apply_percentile_null_aligns s ratio = ones m n" if "min m n \<le> 2"
    using sh that by (simp add: apply_percentile_null_aligns_def)
  have big: "shape (apply_percentile_null_aligns s ratio) = (m, n) \<and>
      (\<forall>i<m. \<forall>j<n. apply_percentile_null_aligns s ratio ! i ! j =
               (if fgt (fmin (entropy_x s ! i) (entropy_y s ! j)) ratio then 0 else 1))"
    if b: "2 < min m n"
  proof -
    have nb: "\<not> min m n \<le> 2" using b by linarith
    have me: "has_shape m n (min_entropy s)" using sh by (rule has_shape_min_entropy)
    have eq: "apply_percentile_null_aligns s ratio =
                ew1 (\<lambda>v. if fgt v ratio then 0 else 1) (min_entropy s)"
      using sh nb by (simp add: apply_percentile_null_aligns_def)
    have "has_shape m n (apply_percentile_null_aligns s ratio)"
      unfolding eq using me by (rule has_shape_ew1)
    then have "shape (apply_percentile_null_aligns s ratio) = (m, n)"
      using b by (intro has_shape_shape) simp_all
    moreover have "apply_percentile_null_aligns s ratio ! i ! j =
               (if fgt (fmin (entropy_x s ! i) (entropy_y s ! j)) ratio then 0 else 1)"
      if "i < m" "j < n" for i j
      unfolding eq
      using hs_ew1_nth[OF me that, of "\<lambda>v. if fgt v ratio then (0::real) else 1"]
        min_entropy_nth[OF sh that] by simp
    ultimately show ?thesis by simp
  qed
  show ?thesis
  proof (intro conjI impI allI)
    assume "min m n \<le> 2"
    then show "apply_percentile_null_aligns s ratio = ones m n" by (rule small)
  next
    fix i j assume "min m n \<le> 2" "i < m" "j < n"
    then show "apply_percentile_null_aligns s ratio ! i ! j = 1"
      using small by (simp add: ones_nth)
  next
    assume "2 < min m n"
    then show "shape (apply_percentile_null_aligns s ratio) = (m, n)" using big by simp
  next
    fix i j assume "2 < min m n" "i < m" "j < n"
    then show "apply_percentile_null_aligns s ratio ! i ! j =
               (if fgt (fmin (entropy_x s ! i) (entropy_y s ! j)) ratio then 0 else 1)"
      using big by simp
  next
    fix i j x y t
    assume "2 < min m n" "i < m" "j < n"
      and "entropy_x s ! i = Finite x \<and> entropy_y s ! j = Finite y \<and> ratio = Finite t"
    then show "apply_percentile_null_aligns s ratio ! i ! j = (if min x y > t then 0 else 1)"
      using big by (simp add: fmin_Finite)
  qed
qed

theorem apply_percentile_null_aligns_mask_witness:
  "shape [[1, 1, -1], [1, 1, 1], [1, 1, 1 :: real]] = (3, 3) \<and> (2::nat) < min 3 3 \<and>
   entropy_x [[1, 1, -1], [1, 1, 1], [1, 1, 1]] = [NegInf, Finite 1, Finite 1] \<and>
   entropy_y [[1, 1, -1], [1, 1, 1], [1, 1, 1]] = [Finite 1, Finite 1, NegInf] \<and>
   apply_percentile_null_aligns [[1, 1, -1], [1, 1, 1], [1, 1, 1]] (Finite (1/2)) ! 1 ! 1 = 0 \<and>
   apply_percentile_null_aligns [[1, 1, -1], [1, 1, 1], [1, 1, 1]] (Finite 1) ! 1 ! 1 = 1 \<and>
   apply_percentile_null_aligns [[1, 1, -1], [1, 1, 1], [1, 1, 1]] (Finite (1/2)) ! 0 ! 0 = 1 \<and>
   apply_percentile_null_aligns [[1, 1, -1], [1, 1, 1], [1, 1, 1]] PosInf ! 1 ! 1 = 1 \<and>
   shape [[1/2, 1/2], [1/4, 3/4 :: real]] = (2, 2) \<and> min (2::nat) 2 \<le> 2 \<and>
   apply_percentile_null_aligns [[1/2, 1/2], [1/4, 3/4]] (Finite 0) = [[1, 1], [1, 1]]"
proof -
  let ?s = "[[1, 1, -1], [1, 1, 1], [1, 1, 1 :: real]]"
  let ?t = "[[1/2, 1/2], [1/4, 3/4 :: real]]"
  have sh: "shape ?s = (3, 3)" by (simp add: shape_def)
  have sh2: "shape ?t = (2, 2)" by (simp add: shape_def)
  note ex = ex1 and ey = ey1
  have a: "apply_percentile_null_aligns ?s (Finite (1/2)) ! 1 ! 1 = 0"
    using apply_percentile_null_aligns_mask[OF sh, of "Finite (1/2)"] ex ey by simp
  have b: "apply_percentile_null_aligns ?s (Finite 1) ! 1 ! 1 = 1"
    using apply_percentile_null_aligns_mask[OF sh, of "Finite 1"] ex ey by simp
  have c: "apply_percentile_null_aligns ?s (Finite (1/2)) ! 0 ! 0 = 1"
    using apply_percentile_null_aligns_mask[OF sh, of "Finite (1/2)"] ex ey by simp
  have d: "apply_percentile_null_aligns ?s PosInf ! 1 ! 1 = 1"
    using apply_percentile_null_aligns_mask[OF sh, of PosInf] ex ey by simp
  have e: "apply_percentile_null_aligns ?t (Finite 0) = [[1, 1], [1, 1]]"
    using apply_percentile_null_aligns_mask[OF sh2, of "Finite 0"]
    by (simp add: ones_def numeral_2_eq_2)
  show ?thesis using sh sh2 ex ey a b c d e by simp
qed


lemma gather_null_aligns_positive:
  "gather_null_aligns s a = Inr xs \<Longrightarrow> x \<in> set xs \<Longrightarrow> fgt x (Finite 0)"
  by (auto simp: gather_null_aligns_def Let_def split: prod.splits if_splits sum.splits)




section \<open>The corpus run: results\<close>

lemma all_mats_unfiltered:
  "\<not> null_align a < 1 \<Longrightarrow> all_mats ba a nt raw = unfiltered_mats ba (distortion a) raw"
  by (simp add: all_mats_def unfiltered_mats_def Let_def split: prod.splits sum.splits)

lemma for_each_cong: "(\<And>x. x \<in> set xs \<Longrightarrow> f x = g x) \<Longrightarrow> for_each f xs = for_each g xs"
proof (induction xs)
  case Nil
  then show ?case by simp
next
  case (Cons x xs)
  have hd: "f x = g x" using Cons.prems by simp
  have tl: "for_each f xs = for_each g xs" using Cons by simp
  show ?case by (simp only: for_each.simps hd tl)
qed

text \<open>
  Claim C9. With keep-fraction \<open>k = 1\<close> the run makes no calibration pass and builds no
  mask: for every corpus and every choice of matchers its final matrices, or the error it
  stops with, are those of the run with the filter disabled.
\<close>

theorem keep_all_is_unfiltered:
  assumes "null_align a = 1"
  shows "run ba a corpus = run_unfiltered ba (distortion a) corpus"
proof -
  have k: "\<not> null_align a < 1" using assms by simp
  then have "run ba a corpus = for_each (all_mats ba a Map.empty) corpus"
    by (simp add: run_def)
  also have "\<dots> = for_each (unfiltered_mats ba (distortion a)) corpus"
    by (rule for_each_cong) (rule all_mats_unfiltered[OF k])
  finally show ?thesis by (simp add: run_unfiltered_def)
qed

theorem keep_all_is_unfiltered_witness:
  "null_align \<lparr>distortion = 0, null_align = 1, matching_methods = [''inter'']\<rparr> = 1 \<and>
   run \<lparr>get_alignment_matrix = (\<lambda>s. (s, s)), symmetrize = (\<lambda>f b. f),
        max_weight_matching = (\<lambda>s. s)\<rparr>
       \<lparr>distortion = 0, null_align = 1, matching_methods = [''inter'']\<rparr>
       [[[3/4, 1/4], [1/4, 3/4]]]
   = run_unfiltered \<lparr>get_alignment_matrix = (\<lambda>s. (s, s)), symmetrize = (\<lambda>f b. f),
        max_weight_matching = (\<lambda>s. s)\<rparr> 0 [[[3/4, 1/4], [1/4, 3/4]]] \<and>
   map_sum id (map (\<lambda>d. d ''itermax''))
     (run_unfiltered \<lparr>get_alignment_matrix = (\<lambda>s. (s, s)), symmetrize = (\<lambda>f b. f),
        max_weight_matching = (\<lambda>s. s)\<rparr> 0 [[[3/4, 1/4], [1/4, 3/4]]])
   = Inr [Some [[1, 0], [0, 1]]]"
proof -
  let ?a = "\<lparr>distortion = 0, null_align = 1, matching_methods = [''inter'']\<rparr>"
  have k: "null_align ?a = 1" by simp
  have im: "iter_max \<lparr>sim = Some [[3/4, 1/4], [1/4, 3/4]]\<rparr> [[3/4, 1/4], [1/4, 3/4]] 1
              = Inr [[1, 0], [0, 1]]"
    by code_simp
  have d: "apply_distortion [[3/4, 1/4], [1/4, 3/4]] 0 = [[3/4, 1/4], [1/4, 3/4]]"
    by (simp add: apply_distortion_def)
  have u: "map_sum id (map (\<lambda>d. d ''itermax''))
     (run_unfiltered \<lparr>get_alignment_matrix = (\<lambda>s. (s, s)), symmetrize = (\<lambda>f b. f),
        max_weight_matching = (\<lambda>s. s)\<rparr> 0 [[[3/4, 1/4], [1/4, 3/4]]])
   = Inr [Some [[1, 0], [0, 1]]]"
    by (simp add: run_unfiltered_def unfiltered_mats_def Let_def d im)
  show ?thesis using keep_all_is_unfiltered[OF k] u by simp
qed

text \<open>
  Claim C2. The threshold of an empty pool is claimed to be defined so that nothing is
  filtered. Line 250 indexes the sorted pool at \<open>int(k * 0) = 0\<close>, which raises IndexError
  on the empty list. A corpus of one sentence pair with a 2 by 2 similarity matrix, run with
  \<open>k = 1/2\<close> and the method \<open>inter\<close>, ends so whatever the matchers return:
  \<open>gather_null_aligns\<close> contributes nothing for a matrix with \<open>min(m, n) \<le> 2\<close>.
\<close>

theorem empty_pool_raises:
  "threshold k [] = Inl IndexError \<and>
   run ba \<lparr>distortion = 0, null_align = 1/2, matching_methods = [''inter'']\<rparr>
       [[[3/4, 1/4], [1/4, 3/4]]] = Inl IndexError"
proof -
  have t: "threshold k [] = Inl IndexError" for k
    by (simp add: threshold_def py_index_def py_int_def)
  have im: "iter_max \<lparr>sim = Some [[3/4, 1/4], [1/4, 3/4]]\<rparr> [[3/4, 1/4], [1/4, 3/4]] 1
              = Inr [[1, 0], [0, 1]]"
    by code_simp
  have d: "apply_distortion [[3/4, 1/4], [1/4, 3/4]] 0 = [[3/4, 1/4], [1/4, 3/4]]"
    by (simp add: apply_distortion_def)
  have g: "gather_null_aligns [[3/4, 1/4], [1/4, 3/4]] x = Inr []" for x
    by (simp add: gather_null_aligns_def shape_def)
  have "calibrate ba \<lparr>distortion = 0, null_align = 1/2, matching_methods = [''inter'']\<rparr>
          [[[3/4, 1/4], [1/4, 3/4]]] = Inl IndexError"
    by (simp add: calibrate_def dict_keys_def d methods_matrix_def im g t split: prod.splits)
  then show ?thesis using t by (simp add: run_def)
qed

end
